theory Spec2Isabelle
  imports Main "HOL-Library.Word"
begin

unbundle bit_operations_syntax

section \<open>Machine types, kernel constants and the driver's configuration\<close>

type_synonym u64 = "64 word"
type_synonym u32 = "32 word"

text \<open>
  \<open>PAGE_SHIFT\<close> is the kernel's constant for 4 KiB pages. The errno values are the
  kernel's; the driver returns them negated.
\<close>

definition PAGE_SHIFT :: nat where
  "PAGE_SHIFT = 12"

definition ENOMEM :: int where "ENOMEM = 12"
definition EFAULT :: int where "EFAULT = 14"
definition EBUSY :: int where "EBUSY = 16"
definition EINVAL :: int where "EINVAL = 22"

text \<open>
  \<open>struct tlb_metadata\<close> and \<open>struct bus_driver_data\<close> are declared in the driver's
  headers; the records hold the fields this file reads. The header macro
  \<open>MAX_N_MAP_PAGES\<close> is a parameter \<open>maxn\<close> of the functions that use it.
\<close>

record tlb_metadata =
  page_size :: u64
  page_mask :: u64

record bus_driver_data =
  stlb_meta :: tlb_metadata
  ltlb_meta :: tlb_metadata
  n_pages_in_huge :: u32
  dif_order_page_shift :: nat

text \<open>
  The configuration used at concrete inputs: 4 KiB regular pages, 2 MiB huge pages,
  \<open>page_mask = ~(page_size - 1)\<close>, 512 regular pages in a huge page.
\<close>

definition meta_4k :: tlb_metadata where
  "meta_4k = \<lparr>page_size = 0x1000, page_mask = NOT 0xFFF\<rparr>"

definition meta_2m :: tlb_metadata where
  "meta_2m = \<lparr>page_size = 0x200000, page_mask = NOT 0x1FFFFF\<rparr>"

definition bd_4k_2m :: bus_driver_data where
  "bd_4k_2m = \<lparr>stlb_meta = meta_4k, ltlb_meta = meta_2m,
     n_pages_in_huge = 512, dif_order_page_shift = 9\<rparr>"

definition tlb_meta_of :: "bus_driver_data \<Rightarrow> bool \<Rightarrow> tlb_metadata" where
  "tlb_meta_of bd huge = (if huge then ltlb_meta bd else stlb_meta bd)"

section \<open>Calls that leave the file\<close>

text \<open>
  The calls that act on the world outside a function (the TLB writers, the kernel's
  page, lock, migration and DMA primitives, and the device-private page allocator when
  a migration calls it) are recorded as events, in program order. What the kernel
  answers (an allocation, a page-table walk, a fault) is an input of the model. The
  local bookkeeping arrays are lists; \<open>vfree\<close> and \<open>kfree\<close> of them are not recorded.
  A \<open>struct page *\<close> is a page frame number; \<open>NULL\<close> is \<open>None\<close>.
\<close>

type_synonym page = nat

datatype lock = Mmu_lock | Page_lock | Sections_lock | Sync_lock | Offload_lock

datatype waitq = Waitqueue_invldt | Waitqueue_sync | Waitqueue_offload

text \<open>The access macro handed to \<open>create_tlb_mapping\<close> (its \<open>host\<close> argument).\<close>

datatype access = STRM_ACCESS | CARD_ACCESS

text \<open>
  An entry of \<open>mig_args.dst\<close>: zero, or \<open>migrate_pfn(pfn) | MIGRATE_PFN_LOCKED\<close> with
  or without \<open>MIGRATE_PFN_WRITE\<close> (never zero: \<open>migrate_pfn\<close> sets the valid bit).
\<close>

datatype dst_entry = Dst_zero | Dst_locked page bool

datatype event =
    Create_tlb_mapping bool u64 u64 access int int
  | Create_tlb_unmapping bool u64 int
  | Invalidate_tlb_entry u64 u32 int bool
  | Mutex_lock lock
  | Mutex_trylock lock bool
  | Mutex_unlock lock
  | Spin_lock lock
  | Spin_unlock lock
  | Mmu_interval_set_seq nat
  | Mmu_interval_read_begin
  | Hmm_range_fault int
  | Mmu_interval_read_retry bool
  | Release_mem_region u64 u64
  | Kfree_devmem
  | Lock_page page
  | Unlock_page page
  | Get_page page
  | Put_page page
  | Cpu_free_private_page page
  | Migrate_vma_pages "dst_entry list"
  | Migrate_vma_finalize
  | Alloc_card_memory nat bool
  | Free_card_memory "u64 list" nat bool
  | List_add_migrated u64
  | List_del_migrated page
  | Wait_event waitq
  | Trigger_dma_sync "u64 list" "u64 list" nat bool
  | Trigger_dma_offload "u64 list" "u64 list" nat bool
  | Change_tlb_lock
  | Mmget
  | Mmput
  | Mmap_read_lock
  | Mmap_read_unlock

text \<open>
  What a modelled function cannot return a value for: a loop that never ends, a read
  outside an array or through a null pointer (undefined in C), or a \<open>BUG_ON\<close> that fires.
\<close>

datatype fault = Diverges | Out_of_bounds | Null_deref | Bug_on

fun prepend :: "event \<Rightarrow> fault + event list \<Rightarrow> fault + event list" where
  "prepend e (Inl f) = Inl f"
| "prepend e (Inr es) = Inr (e # es)"

section \<open>TLB mapping: \<open>tlb_map_hmm\<close> and \<open>tlb_unmap_hmm\<close>\<close>

text \<open>
  The loop of \<open>tlb_map_hmm\<close>. The index \<open>i\<close> advances by \<open>pg_inc\<close> on every
  iteration, also on \<open>continue\<close>; \<open>tmp_vaddr\<close> advances only after a mapping was
  created. The \<open>int\<close> index is a natural number here (no wrap-around of \<open>i\<close>).
\<close>

function tlb_map_loop ::
  "nat \<Rightarrow> bool \<Rightarrow> u32 \<Rightarrow> u32 \<Rightarrow> u64 list \<Rightarrow> access \<Rightarrow> int \<Rightarrow> int \<Rightarrow> nat \<Rightarrow> u64
    \<Rightarrow> fault + event list" where
  "tlb_map_loop maxn huge pg_inc n_map_pages paddr host ctid hpid i tmp_vaddr =
     (if i < unat n_map_pages \<and> i < maxn then
        if pg_inc = 0 then Inl Diverges
        else if length paddr \<le> i then Inl Out_of_bounds
        else if paddr ! i = 0 then
          tlb_map_loop maxn huge pg_inc n_map_pages paddr host ctid hpid
            (i + unat pg_inc) tmp_vaddr
        else
          prepend (Create_tlb_mapping huge tmp_vaddr (paddr ! i) host ctid hpid)
            (tlb_map_loop maxn huge pg_inc n_map_pages paddr host ctid hpid
              (i + unat pg_inc) (tmp_vaddr + ucast pg_inc))
      else Inr [])"
  by pat_completeness auto
termination
  by (relation "measure (\<lambda>(maxn, huge, pg_inc, n_map_pages, paddr, host, ctid, hpid, i, v).
        unat n_map_pages - i)")
     (auto simp: unat_gt_0 intro: diff_less_mono2)

declare tlb_map_loop.simps [simp del]

definition tlb_map_hmm ::
  "nat \<Rightarrow> bus_driver_data \<Rightarrow> u64 \<Rightarrow> u64 list \<Rightarrow> u32 \<Rightarrow> access \<Rightarrow> int \<Rightarrow> int \<Rightarrow> bool
    \<Rightarrow> fault + event list" where
  "tlb_map_hmm maxn bd vaddr paddr n_pages host ctid hpid huge =
     (let pg_inc = (if huge then n_pages_in_huge bd else 1);
          n_map_pages = (if huge then drop_bit (dif_order_page_shift bd) n_pages else n_pages)
      in tlb_map_loop maxn huge pg_inc n_map_pages paddr host ctid hpid 0 vaddr)"

text \<open>The two loops of \<open>tlb_unmap_hmm\<close>: the unmappings, then the invalidations.\<close>

function tlb_unmap_loop ::
  "bool \<Rightarrow> u32 \<Rightarrow> u32 \<Rightarrow> int \<Rightarrow> nat \<Rightarrow> u64 \<Rightarrow> fault + event list" where
  "tlb_unmap_loop huge pg_inc n_map_pages hpid i tmp_vaddr =
     (if i < unat n_map_pages then
        if pg_inc = 0 then Inl Diverges
        else
          prepend (Create_tlb_unmapping huge tmp_vaddr hpid)
            (tlb_unmap_loop huge pg_inc n_map_pages hpid
              (i + unat pg_inc) (tmp_vaddr + ucast pg_inc))
      else Inr [])"
  by pat_completeness auto
termination
  by (relation "measure (\<lambda>(huge, pg_inc, n_map_pages, hpid, i, v). unat n_map_pages - i)")
     (auto simp: unat_gt_0 intro: diff_less_mono2)

declare tlb_unmap_loop.simps [simp del]

function tlb_invalidate_loop ::
  "u32 \<Rightarrow> u32 \<Rightarrow> int \<Rightarrow> nat \<Rightarrow> u64 \<Rightarrow> fault + event list" where
  "tlb_invalidate_loop pg_inc n_map_pages hpid i tmp_vaddr =
     (if i < unat n_map_pages then
        if pg_inc = 0 then Inl Diverges
        else
          prepend (Invalidate_tlb_entry tmp_vaddr pg_inc hpid
                     (of_nat i = n_map_pages - pg_inc))
            (tlb_invalidate_loop pg_inc n_map_pages hpid
              (i + unat pg_inc) (tmp_vaddr + ucast pg_inc))
      else Inr [])"
  by pat_completeness auto
termination
  by (relation "measure (\<lambda>(pg_inc, n_map_pages, hpid, i, v). unat n_map_pages - i)")
     (auto simp: unat_gt_0 intro: diff_less_mono2)

declare tlb_invalidate_loop.simps [simp del]

fun then_events :: "fault + event list \<Rightarrow> fault + event list \<Rightarrow> fault + event list" where
  "then_events (Inl f) r = Inl f"
| "then_events (Inr es) (Inl f) = Inl f"
| "then_events (Inr es) (Inr es') = Inr (es @ es')"

definition tlb_unmap_hmm ::
  "bus_driver_data \<Rightarrow> u64 \<Rightarrow> u32 \<Rightarrow> int \<Rightarrow> bool \<Rightarrow> fault + event list" where
  "tlb_unmap_hmm bd vaddr n_pages hpid huge =
     (let pg_inc = (if huge then n_pages_in_huge bd else 1);
          n_map_pages = (if huge then drop_bit (dif_order_page_shift bd) n_pages else n_pages)
      in then_events
           (tlb_unmap_loop huge pg_inc n_map_pages hpid 0 vaddr)
           (tlb_invalidate_loop pg_inc n_map_pages hpid 0 vaddr))"

text \<open>
  The claims' side of the comparison. What install is to write: for each slot of the
  array that does not hold the sentinel 0, an entry at the virtual page of the slot's
  position. What remove is to walk: every granule of the requested range.
\<close>

definition claimed_install :: "u64 \<Rightarrow> u64 list \<Rightarrow> (u64 \<times> u64) list" where
  "claimed_install vaddr paddr =
     [(vaddr + of_nat i, paddr ! i). i \<leftarrow> [0 ..< length paddr], paddr ! i \<noteq> 0]"

definition claimed_unmap :: "bus_driver_data \<Rightarrow> u64 \<Rightarrow> u32 \<Rightarrow> bool \<Rightarrow> u64 list" where
  "claimed_unmap bd vaddr n_pages huge =
     (if huge
      then map (\<lambda>k. vaddr + of_nat (k * unat (n_pages_in_huge bd)))
             [0 ..< unat n_pages div unat (n_pages_in_huge bd)]
      else map (\<lambda>k. vaddr + of_nat k) [0 ..< unat n_pages])"

section \<open>The notifier callback \<open>cyt_interval_invalidate\<close>\<close>

text \<open>
  The fields of \<open>struct mmu_notifier_range\<close> the callback reads: \<open>event_is_migrate\<close> is
  \<open>range->event == MMU_NOTIFY_MIGRATE\<close>, \<open>owner_is_d\<close> is \<open>range->owner == d\<close>,
  \<open>blockable\<close> is \<open>mmu_notifier_range_blockable(range)\<close>.
\<close>

record mmu_notifier_range =
  range_start :: u64
  range_end :: u64
  event_is_migrate :: bool
  owner_is_d :: bool
  blockable :: bool

text \<open>
  \<open>huge\<close> is the answer of \<open>is_thp\<close>, \<open>trylock_ok\<close> the answer of \<open>mutex_trylock\<close>
  (asked only when the range is not blockable). The result is the callback's return
  value and its calls out of the file.
\<close>

definition cyt_interval_invalidate ::
  "bus_driver_data \<Rightarrow> int \<Rightarrow> mmu_notifier_range \<Rightarrow> nat \<Rightarrow> bool \<Rightarrow> bool
    \<Rightarrow> fault + (bool \<times> event list)" where
  "cyt_interval_invalidate bd hpid rng cur_seq huge trylock_ok =
     (let order = tlb_meta_of bd huge;
          start = range_start rng AND page_mask order;
          end_va = (range_end rng + page_size order - 1) AND page_mask order
      in if event_is_migrate rng \<and> owner_is_d rng then Inr (True, [])
         else if \<not> blockable rng \<and> \<not> trylock_ok then Inr (False, [Mutex_trylock Mmu_lock False])
         else
           let first = drop_bit PAGE_SHIFT start;
               last = drop_bit PAGE_SHIFT end_va;
               n_pages = (ucast (last - first) :: u32)
           in case tlb_unmap_hmm bd (push_bit PAGE_SHIFT start) n_pages hpid huge of
                Inl f \<Rightarrow> Inl f
              | Inr es \<Rightarrow>
                  Inr (True,
                    [if blockable rng then Mutex_lock Mmu_lock else Mutex_trylock Mmu_lock True,
                     Mmu_interval_set_seq cur_seq] @ es @ [Mutex_unlock Mmu_lock]))"

text \<open>The virtual addresses handed to \<open>create_tlb_unmapping\<close> and \<open>create_tlb_mapping\<close>.\<close>

fun unmapped_vaddrs :: "event list \<Rightarrow> u64 list" where
  "unmapped_vaddrs [] = []"
| "unmapped_vaddrs (Create_tlb_unmapping huge vaddr hpid # es) = vaddr # unmapped_vaddrs es"
| "unmapped_vaddrs (e # es) = unmapped_vaddrs es"

fun mapped_entries :: "event list \<Rightarrow> (u64 \<times> u64) list" where
  "mapped_entries [] = []"
| "mapped_entries (Create_tlb_mapping huge vaddr paddr host ctid hpid # es) =
     (vaddr, paddr) # mapped_entries es"
| "mapped_entries (e # es) = mapped_entries es"

text \<open>
  The claim's side of the comparison: the page numbers (in regular pages, the unit
  \<open>tlb_unmap_hmm\<close> and \<open>tlb_map_hmm\<close> count virtual addresses in, as their callers
  \<open>fpga_migrate_to_host\<close> and \<open>fpga_migrate_to_card\<close> pass \<open>start >> PAGE_SHIFT\<close>) of the
  granules of the reported range rounded to the granularity.
\<close>

definition rounded_range_pages :: "bus_driver_data \<Rightarrow> bool \<Rightarrow> mmu_notifier_range \<Rightarrow> u64 list" where
  "rounded_range_pages bd huge rng =
     (let order = tlb_meta_of bd huge;
          g = unat (page_size order);
          lo = (unat (range_start rng) div g) * g;
          hi = ((unat (range_end rng) + g - 1) div g) * g
      in map (\<lambda>k. of_nat ((lo + k * g) div 2 ^ PAGE_SHIFT)) [0 ..< (hi - lo) div g])"

section \<open>The page count of \<open>mmu_handler_hmm\<close>\<close>

definition mmu_handler_first :: "bus_driver_data \<Rightarrow> bool \<Rightarrow> u64 \<Rightarrow> u64" where
  "mmu_handler_first bd hugepages vaddr =
     drop_bit PAGE_SHIFT (vaddr AND page_mask (tlb_meta_of bd hugepages))"

definition mmu_handler_last :: "bus_driver_data \<Rightarrow> bool \<Rightarrow> u64 \<Rightarrow> u64 \<Rightarrow> u64" where
  "mmu_handler_last bd hugepages vaddr len =
     drop_bit PAGE_SHIFT ((vaddr + len - 1) AND page_mask (tlb_meta_of bd hugepages))"

definition mmu_handler_n_pages :: "bus_driver_data \<Rightarrow> bool \<Rightarrow> u64 \<Rightarrow> u64 \<Rightarrow> u64" where
  "mmu_handler_n_pages bd hugepages vaddr len =
     (let n_pages = mmu_handler_last bd hugepages vaddr len
                      - mmu_handler_first bd hugepages vaddr + 1
      in if hugepages then n_pages * ucast (n_pages_in_huge bd) else n_pages)"

text \<open>
  The claim's side: the number of granules of size \<open>g\<close> that cover the bytes
  \<open>vaddr .. vaddr + len - 1\<close>, and the page count the claim states.
\<close>

definition granules_spanned :: "nat \<Rightarrow> nat \<Rightarrow> nat \<Rightarrow> nat" where
  "granules_spanned g vaddr len = (vaddr + len - 1) div g - vaddr div g + 1"

definition claimed_page_count :: "bus_driver_data \<Rightarrow> bool \<Rightarrow> u64 \<Rightarrow> u64 \<Rightarrow> nat" where
  "claimed_page_count bd hugepages vaddr len =
     (if hugepages
      then granules_spanned (unat (page_size (ltlb_meta bd))) (unat vaddr) (unat len)
             * unat (n_pages_in_huge bd)
      else granules_spanned (unat (page_size (stlb_meta bd))) (unat vaddr) (unat len))"

section \<open>The device-private page allocator\<close>

text \<open>
  The allocator's part of \<open>struct vfpga_dev\<close>: the free list (linked through
  \<open>zone_device_data\<close>, head first) and the list of registered chunks.
\<close>

record hmm_prvt_chunk =
  chunk_start :: u64
  chunk_end :: u64

record vfpga_dev =
  free_pages :: "page list"
  mem_sections :: "hmm_prvt_chunk list"

text \<open>
  What the kernel answers during one \<open>alloc_new_prvt_pages\<close>: whether \<open>kzalloc\<close> of the
  management struct succeeds, the resource of \<open>request_free_mem_region\<close> (its
  \<open>start\<close> and \<open>end\<close>; \<open>None\<close> for an error or null), whether \<open>memremap_pages\<close> succeeds.
\<close>

record grow_env =
  kzalloc_ok :: bool
  mem_region :: "(u64 \<times> u64) option"
  memremap_ok :: bool

definition range_len :: "u64 \<Rightarrow> u64 \<Rightarrow> u64" where
  "range_len rstart rend = rend - rstart + 1"

text \<open>
  \<open>alloc_new_prvt_pages\<close>: the return value, the device afterwards and the calls made.
  \<open>ret_val\<close> starts at 0; the \<open>kzalloc\<close> and the \<open>request_free_mem_region\<close> failure set
  it to \<open>-ENOMEM\<close>; the \<open>memremap_pages\<close> failure jumps to \<open>err_remap\<close> without setting it.
\<close>

definition alloc_new_prvt_pages :: "grow_env \<Rightarrow> vfpga_dev \<Rightarrow> int \<times> vfpga_dev \<times> event list" where
  "alloc_new_prvt_pages env d =
     (if \<not> kzalloc_ok env then (- ENOMEM, d, [])
      else case mem_region env of
        None \<Rightarrow> (- ENOMEM, d, [Kfree_devmem])
      | Some (rstart, rend) \<Rightarrow>
          if \<not> memremap_ok env
          then (0, d, [Release_mem_region rstart (range_len rstart rend), Kfree_devmem])
          else
            let page0 = unat (drop_bit PAGE_SHIFT rstart);
                n_pages = unat (drop_bit PAGE_SHIFT (range_len rstart rend))
            in (0,
                d\<lparr>mem_sections := \<lparr>chunk_start = rstart, chunk_end = rend\<rparr> # mem_sections d,
                  free_pages := rev [page0 ..< page0 + n_pages] @ free_pages d\<rparr>,
                [Spin_lock Sections_lock, Spin_unlock Sections_lock,
                 Spin_lock Page_lock, Spin_unlock Page_lock]))"

definition cpu_free_private_page :: "page \<Rightarrow> vfpga_dev \<Rightarrow> vfpga_dev \<times> event list" where
  "cpu_free_private_page pg d =
     (d\<lparr>free_pages := pg # free_pages d\<rparr>, [Spin_lock Page_lock, Spin_unlock Page_lock])"

text \<open>
  \<open>alloc_private_page\<close>: the page handed out (\<open>None\<close> for \<open>NULL\<close>), the device afterwards
  and the calls made. With an empty free list after a growth that returned 0 the pop
  reads through a null pointer.
\<close>

definition pop_free_page ::
  "vfpga_dev \<Rightarrow> event list \<Rightarrow> fault + (page option \<times> vfpga_dev \<times> event list)" where
  "pop_free_page d es =
     (case free_pages d of
        [] \<Rightarrow> Inl Null_deref
      | pg # rest \<Rightarrow>
          Inr (Some pg, d\<lparr>free_pages := rest\<rparr>, es @ [Spin_lock Page_lock, Spin_unlock Page_lock]))"

definition alloc_private_page ::
  "grow_env \<Rightarrow> vfpga_dev \<Rightarrow> fault + (page option \<times> vfpga_dev \<times> event list)" where
  "alloc_private_page env d =
     (if free_pages d = [] then
        (case alloc_new_prvt_pages env d of
           (ret_val, d', es) \<Rightarrow>
             if ret_val \<noteq> 0 then Inr (None, d', es @ [Spin_unlock Page_lock])
             else pop_free_page d' es)
      else pop_free_page d [])"

text \<open>
  How often lock \<open>l\<close> is held after the events, starting from \<open>n\<close>; \<open>None\<close> when an
  event releases it while it is not held.
\<close>

fun lock_depth :: "lock \<Rightarrow> event list \<Rightarrow> nat \<Rightarrow> nat option" where
  "lock_depth l [] n = Some n"
| "lock_depth l (e # es) n =
     (if e = Spin_lock l \<or> e = Mutex_lock l \<or> e = Mutex_trylock l True
      then lock_depth l es (Suc n)
      else if e = Spin_unlock l \<or> e = Mutex_unlock l
      then (case n of 0 \<Rightarrow> None | Suc m \<Rightarrow> lock_depth l es m)
      else lock_depth l es n)"

section \<open>Host-fault resolution: \<open>fpga_do_host_fault\<close>\<close>

text \<open>
  The fields of \<open>struct cyt_migrate\<close> the file reads (the \<open>vma\<close> pointer apart).
  \<open>n_pages\<close> is 32 bits wide, as the local copy in \<open>fpga_do_host_fault\<close> is.
\<close>

record cyt_migrate =
  ctid :: int
  hpid :: int
  vaddr :: u64
  n_pages :: u32
  hugepages :: bool

text \<open>
  What one pass of the retry loop observes: whether \<open>time_after(jiffies, timeout)\<close>
  holds at its top, what \<open>hmm_range_fault\<close> returns, and what
  \<open>mmu_interval_read_retry\<close> answers. The loop runs on a list of these; \<open>None\<close> says
  that the loop is still running when the list ends.
\<close>

record fault_obs =
  timed_out :: bool
  fault_ret :: int
  read_retry :: bool

fun after_events :: "event list \<Rightarrow> (int \<times> event list) option \<Rightarrow> (int \<times> event list) option" where
  "after_events es None = None"
| "after_events es (Some (r, es')) = Some (r, es @ es')"

fun host_fault_loop :: "fault_obs list \<Rightarrow> (int \<times> event list) option" where
  "host_fault_loop [] = None"
| "host_fault_loop (ob # obs) =
     (if timed_out ob then Some (- EBUSY, [])
      else if fault_ret ob \<noteq> 0 then
        (if fault_ret ob = - EBUSY
         then after_events [Mmu_interval_read_begin, Hmm_range_fault (fault_ret ob)]
                (host_fault_loop obs)
         else Some (fault_ret ob, [Mmu_interval_read_begin, Hmm_range_fault (fault_ret ob)]))
      else if read_retry ob
      then after_events
             [Mmu_interval_read_begin, Hmm_range_fault 0, Mmu_interval_read_retry True]
             (host_fault_loop obs)
      else Some (0, [Mmu_interval_read_begin, Hmm_range_fault 0, Mmu_interval_read_retry False]))"

text \<open>
  \<open>fpga_do_host_fault\<close>: \<open>notifier_found\<close> is the outcome of the hash lookup,
  \<open>pfns_ok\<close> that of the allocation of the pfn array, \<open>hmm_pfns\<close> the array as the last
  fault left it. The loop leaves through \<open>break\<close> exactly when \<open>ret_val\<close> is 0.
\<close>

definition fpga_do_host_fault ::
  "nat \<Rightarrow> bus_driver_data \<Rightarrow> cyt_migrate \<Rightarrow> bool \<Rightarrow> bool \<Rightarrow> fault_obs list \<Rightarrow> u64 list
    \<Rightarrow> (fault + int \<times> event list) option" where
  "fpga_do_host_fault maxn bd args notifier_found pfns_ok obs hmm_pfns =
     (if \<not> notifier_found then Some (Inr (- EINVAL, []))
      else if \<not> pfns_ok then Some (Inr (- ENOMEM, []))
      else case host_fault_loop obs of
        None \<Rightarrow> None
      | Some (ret_val, es) \<Rightarrow>
          if ret_val \<noteq> 0 then Some (Inr (ret_val, es))
          else
            (case tlb_map_hmm maxn bd (push_bit PAGE_SHIFT (vaddr args)) hmm_pfns (n_pages args)
                    STRM_ACCESS (ctid args) (hpid args) (hugepages args) of
               Inl f \<Rightarrow> Some (Inl f)
             | Inr ms \<Rightarrow> Some (Inr (ret_val, es @ ms))))"

text \<open>The calls of \<open>hmm_range_fault\<close> among the events.\<close>

fun count_faults :: "event list \<Rightarrow> nat" where
  "count_faults [] = 0"
| "count_faults (Hmm_range_fault r # es) = Suc (count_faults es)"
| "count_faults (e # es) = count_faults es"

text \<open>
  A pass that sends the loop round again, and the return value of a pass that does not.
\<close>

definition is_retry :: "fault_obs \<Rightarrow> bool" where
  "is_retry ob =
     (\<not> timed_out ob \<and> (fault_ret ob = - EBUSY \<or> (fault_ret ob = 0 \<and> read_retry ob)))"

definition exit_code :: "fault_obs \<Rightarrow> int" where
  "exit_code ob = (if timed_out ob then - EBUSY else fault_ret ob)"

section \<open>Migration to host: \<open>fpga_migrate_to_host\<close>\<close>

text \<open>
  An entry of \<open>mig_args.src\<close> as \<open>migrate_vma_setup\<close> leaves it: the flags the file
  tests and the page of \<open>migrate_pfn_to_page\<close>.
\<close>

record src_entry =
  pfn_migrate :: bool
  pfn_write :: bool
  src_page :: "page option"

text \<open>
  What the kernel answers during one migration: \<open>vmalloc_ok k\<close> for the \<open>k\<close>-th array
  allocation of the call (from 0, in program order), the outcome of
  \<open>find_vma_intersection\<close>, the return value of \<open>migrate_vma_setup\<close> with the \<open>src\<close>
  array and \<open>cpages\<close> it leaves, the page \<open>host_ptw\<close> finds for index \<open>i\<close>, the
  destination page allocated for index \<open>i\<close> (\<open>alloc_page_vma\<close>, \<open>alloc_pages_vma\<close> or
  \<open>alloc_private_page\<close>, which is modelled on its own above), the \<open>card_address\<close> in a
  page's \<open>zone_device_data\<close> (\<open>None\<close> when that pointer is null), and the addresses
  \<open>alloc_card_memory\<close> writes (\<open>None\<close> when it fails).
\<close>

record migrate_env =
  vmalloc_ok :: "nat \<Rightarrow> bool"
  vma_found :: bool
  setup_ret :: int
  setup_src :: "src_entry list"
  setup_cpages :: nat
  host_ptw :: "nat \<Rightarrow> page option"
  alloc_dst :: "nat \<Rightarrow> page option"
  zone_card_address :: "page \<Rightarrow> u64 option"
  card_memory :: "u64 list option"

text \<open>Entries of \<open>src\<close> that \<open>migrate_vma_setup\<close> did not write are zero.\<close>

definition src_at :: "migrate_env \<Rightarrow> nat \<Rightarrow> src_entry" where
  "src_at env i =
     (if i < length (setup_src env) then setup_src env ! i
      else \<lparr>pfn_migrate = False, pfn_write = False, src_page = None\<rparr>)"

text \<open>
  \<open>mig_args.npages\<close>, which \<open>migrate_vma_setup\<close> computes as
  \<open>(end - start) >> PAGE_SHIFT\<close>, with \<open>end = args->vaddr + (args->n_pages << PAGE_SHIFT)\<close>
  and the shift of \<open>n_pages\<close> in 32 bits.
\<close>

definition mig_npages :: "cyt_migrate \<Rightarrow> u64" where
  "mig_npages args =
     drop_bit PAGE_SHIFT
       ((vaddr args + ucast (push_bit PAGE_SHIFT (n_pages args))) - vaddr args)"

text \<open>
  The arrays of a migration and what the staging loop has done so far. The arrays hold
  \<open>args->n_pages\<close> entries and start zeroed (the code tests entries it never wrote).
\<close>

record stage =
  spages :: "page option list"
  dpages :: "page option list"
  dst :: "dst_entry list"
  dpages_fail :: bool
  staged :: "event list"

definition init_stage :: "nat \<Rightarrow> stage" where
  "init_stage n = \<lparr>spages = replicate n None, dpages = replicate n None,
     dst = replicate n Dst_zero, dpages_fail = False, staged = []\<rparr>"

text \<open>
  The staging loop of \<open>fpga_migrate_to_host\<close>. At huge granularity, after a successful
  \<open>alloc_pages_vma\<close>, the inner loop \<open>for (j = 0; j < n_pages_in_huge; i++)\<close> never
  changes \<open>j\<close>: it runs \<open>i\<close> past the end of the arrays.
\<close>

function to_host_stage ::
  "bus_driver_data \<Rightarrow> cyt_migrate \<Rightarrow> migrate_env \<Rightarrow> nat \<Rightarrow> stage \<Rightarrow> fault + stage" where
  "to_host_stage bd args env i st =
     (if i < unat (mig_npages args) then
        if hugepages args \<and> n_pages_in_huge bd = 0 then Inl Diverges
        else if \<not> pfn_migrate (src_at env i) then
          to_host_stage bd args env
            (i + (if hugepages args then unat (n_pages_in_huge bd) else 1))
            (st\<lparr>dpages := (dpages st)[i := host_ptw env i]\<rparr>)
        else if hugepages args then
          (case alloc_dst env i of
             None \<Rightarrow>
               to_host_stage bd args env (i + unat (n_pages_in_huge bd))
                 (st\<lparr>dpages_fail := True\<rparr>)
           | Some pg \<Rightarrow> Inl Out_of_bounds)
        else
          (case alloc_dst env i of
             None \<Rightarrow>
               to_host_stage bd args env (i + 1)
                 (st\<lparr>spages := (spages st)[i := src_page (src_at env i)],
                     dpages := (dpages st)[i := None], dpages_fail := True\<rparr>)
           | Some pg \<Rightarrow>
               to_host_stage bd args env (i + 1)
                 (st\<lparr>spages := (spages st)[i := src_page (src_at env i)],
                     dpages := (dpages st)[i := Some pg],
                     dst := (dst st)[i := Dst_locked pg (pfn_write (src_at env i))],
                     staged := staged st @ [Lock_page pg]\<rparr>))
      else Inr st)"
  by pat_completeness auto
termination
  by (relation "measure (\<lambda>(bd, args, env, i, st). unat (mig_npages args) - i)")
     (auto simp: unat_gt_0 intro: diff_less_mono2)

declare to_host_stage.simps [simp del]

text \<open>The undo loop that runs when \<open>dpages_fail\<close> is set (the same in both directions).\<close>

function undo_loop ::
  "page option list \<Rightarrow> nat \<Rightarrow> nat \<Rightarrow> dst_entry list \<times> event list
    \<Rightarrow> dst_entry list \<times> event list" where
  "undo_loop dps n i (ds, es) =
     (if i < n then
        (case dps ! i of
           None \<Rightarrow> undo_loop dps n (i + 1) (ds, es)
         | Some pg \<Rightarrow>
             if ds ! i = Dst_zero then undo_loop dps n (i + 1) (ds, es)
             else undo_loop dps n (i + 1)
                    (ds[i := Dst_zero],
                     es @ [Unlock_page pg, Put_page pg, Cpu_free_private_page pg]))
      else (ds, es))"
  by pat_completeness auto
termination
  by (relation "measure (\<lambda>(dps, n, i, acc). n - i)") auto

declare undo_loop.simps [simp del]

text \<open>
  The rollback of both migrations: the undo loop over \<open>args->n_pages\<close> entries, then
  \<open>migrate_vma_pages\<close> and \<open>migrate_vma_finalize\<close> on the cleared \<open>dst\<close> array.
\<close>

definition undo_staged :: "nat \<Rightarrow> stage \<Rightarrow> event list" where
  "undo_staged n st =
     (case undo_loop (dpages st) n 0 (dst st, []) of
        (ds, es) \<Rightarrow> es @ [Migrate_vma_pages ds, Migrate_vma_finalize])"

text \<open>
  The loop "set physical addresses" of \<open>fpga_migrate_to_host\<close>: \<open>host_address[i]\<close>
  takes the \<open>card_address\<close> of the source page, \<open>card_address[i]\<close> the page frame number
  of the destination page; entries not written stay zero. \<open>None\<close>: a source page whose
  \<open>zone_device_data\<close> is null.
\<close>

fun source_card_addresses :: "(page \<Rightarrow> u64 option) \<Rightarrow> page option list \<Rightarrow> u64 list option" where
  "source_card_addresses z [] = Some []"
| "source_card_addresses z (None # ps) = map_option ((#) 0) (source_card_addresses z ps)"
| "source_card_addresses z (Some pg # ps) =
     (case z pg of
        None \<Rightarrow> None
      | Some a \<Rightarrow> map_option ((#) a) (source_card_addresses z ps))"

definition page_to_pfn :: "page option \<Rightarrow> u64" where
  "page_to_pfn p = (case p of None \<Rightarrow> 0 | Some pg \<Rightarrow> of_nat pg)"

text \<open>
  The loop "free card memory": the card addresses of the source pages, in order, go to
  \<open>calloc\<close> (which holds \<open>cpages\<close> entries), and each source page leaves the list of
  migrated pages.
\<close>

fun vacated :: "(page \<Rightarrow> u64 option) \<Rightarrow> page option list \<Rightarrow> (u64 list \<times> event list) option" where
  "vacated z [] = Some ([], [])"
| "vacated z (None # ps) = vacated z ps"
| "vacated z (Some pg # ps) =
     (case z pg of
        None \<Rightarrow> None
      | Some a \<Rightarrow>
          (case vacated z ps of
             None \<Rightarrow> None
           | Some (as, es) \<Rightarrow> Some (a # as, List_del_migrated pg # es)))"

definition free_vacated ::
  "migrate_env \<Rightarrow> cyt_migrate \<Rightarrow> stage \<Rightarrow> fault + event list" where
  "free_vacated env args st =
     (if setup_cpages env > 0 then
        if \<not> vmalloc_ok env 6 then Inl Bug_on
        else case vacated (zone_card_address env) (take (unat (mig_npages args)) (spages st)) of
          None \<Rightarrow> Inl Null_deref
        | Some (as, es) \<Rightarrow>
            if setup_cpages env < length as then Inl Out_of_bounds
            else Inr (es @ [Free_card_memory (as @ replicate (setup_cpages env - length as) 0)
                             (setup_cpages env) (hugepages args)])
      else Inr [])"

text \<open>\<open>fpga_migrate_to_host\<close> from the allocation of the address arrays to its end.\<close>

definition to_host_finish ::
  "nat \<Rightarrow> bus_driver_data \<Rightarrow> cyt_migrate \<Rightarrow> migrate_env \<Rightarrow> stage \<Rightarrow> fault + (int \<times> event list)" where
  "to_host_finish maxn bd args env st =
     (if \<not> vmalloc_ok env 4 then Inr (- ENOMEM, [])
      else if \<not> vmalloc_ok env 5 then Inr (- ENOMEM, [])
      else case source_card_addresses (zone_card_address env) (spages st) of
        None \<Rightarrow> Inl Null_deref
      | Some hs \<Rightarrow>
          let host_address = take (unat (mig_npages args)) hs;
              card_address = take (unat (mig_npages args)) (map page_to_pfn (dpages st))
          in case free_vacated env args st of
               Inl f \<Rightarrow> Inl f
             | Inr fs \<Rightarrow>
                 (case tlb_map_hmm maxn bd (drop_bit PAGE_SHIFT (vaddr args)) host_address
                         (ucast (mig_npages args)) STRM_ACCESS (ctid args) (hpid args)
                         (hugepages args) of
                    Inl f \<Rightarrow> Inl f
                  | Inr ms \<Rightarrow>
                      Inr (0,
                        fs @ [Wait_event Waitqueue_invldt]
                        @ (if setup_cpages env > 0
                           then [Mutex_lock Sync_lock,
                                 Trigger_dma_sync host_address card_address
                                   (unat (mig_npages args)) (hugepages args),
                                 Wait_event Waitqueue_sync, Mutex_unlock Sync_lock]
                           else [])
                        @ [Migrate_vma_pages (dst st), Migrate_vma_finalize] @ ms)))"

definition fpga_migrate_to_host ::
  "nat \<Rightarrow> bus_driver_data \<Rightarrow> cyt_migrate \<Rightarrow> migrate_env \<Rightarrow> fault + (int \<times> event list)" where
  "fpga_migrate_to_host maxn bd args env =
     (if \<not> vmalloc_ok env 0 then Inr (- ENOMEM, [])
      else if \<not> vmalloc_ok env 1 then Inr (- ENOMEM, [])
      else if \<not> vmalloc_ok env 2 then Inr (- ENOMEM, [])
      else if \<not> vmalloc_ok env 3 then Inr (- ENOMEM, [])
      else if \<not> vma_found env then Inr (- EFAULT, [])
      else if setup_ret env \<noteq> 0 then Inr (setup_ret env, [])
      else case tlb_unmap_hmm bd (drop_bit PAGE_SHIFT (vaddr args)) (ucast (mig_npages args))
                  (hpid args) (hugepages args) of
        Inl f \<Rightarrow> Inl f
      | Inr us \<Rightarrow>
          (case to_host_stage bd args env 0 (init_stage (unat (n_pages args))) of
             Inl f \<Rightarrow> Inl f
           | Inr st \<Rightarrow>
               if dpages_fail st
               then Inr (- ENOMEM, us @ staged st @ undo_staged (unat (n_pages args)) st)
               else (case to_host_finish maxn bd args env st of
                       Inl f \<Rightarrow> Inl f
                     | Inr (ret_val, es) \<Rightarrow> Inr (ret_val, us @ staged st @ es))))"

text \<open>
  \<open>user_migrate_to_host\<close>: \<open>thp\<close> is the answer of \<open>is_thp\<close>, stored in
  \<open>args->hugepages\<close> before the lock is taken.
\<close>

definition user_migrate_to_host ::
  "nat \<Rightarrow> bus_driver_data \<Rightarrow> cyt_migrate \<Rightarrow> bool \<Rightarrow> migrate_env \<Rightarrow> fault + (int \<times> event list)" where
  "user_migrate_to_host maxn bd args thp env =
     (case fpga_migrate_to_host maxn bd (args\<lparr>hugepages := thp\<rparr>) env of
        Inl f \<Rightarrow> Inl f
      | Inr (ret_val, es) \<Rightarrow>
          Inr (ret_val,
            [Mutex_lock Mmu_lock, Change_tlb_lock, Mmget, Mmap_read_lock] @ es
            @ [Mmap_read_unlock, Mmput, Change_tlb_lock, Mutex_unlock Mmu_lock]))"

text \<open>
  The waits of an execution, each with whether the execution holds mutex \<open>l\<close> when it
  blocks (\<open>h\<close>: whether it holds the mutex at the start).
\<close>

fun wait_of :: "event \<Rightarrow> waitq option" where
  "wait_of (Wait_event q) = Some q"
| "wait_of e = None"

fun waits_while :: "lock \<Rightarrow> bool \<Rightarrow> event list \<Rightarrow> (waitq \<times> bool) list" where
  "waits_while l h [] = []"
| "waits_while l h (e # es) =
     (if e = Mutex_lock l then waits_while l True es
      else if e = Mutex_unlock l then waits_while l False es
      else case wait_of e of
        None \<Rightarrow> waits_while l h es
      | Some q \<Rightarrow> (q, h) # waits_while l h es)"

section \<open>Migration to card: \<open>fpga_migrate_to_card\<close>\<close>

text \<open>
  The staging loop of \<open>fpga_migrate_to_card\<close>; it advances by one page at either
  granularity.
\<close>

function to_card_stage :: "cyt_migrate \<Rightarrow> migrate_env \<Rightarrow> nat \<Rightarrow> stage \<Rightarrow> stage" where
  "to_card_stage args env i st =
     (if i < unat (mig_npages args) then
        if \<not> pfn_migrate (src_at env i) then
          to_card_stage args env (i + 1) (st\<lparr>dpages := (dpages st)[i := host_ptw env i]\<rparr>)
        else
          (case alloc_dst env i of
             None \<Rightarrow>
               to_card_stage args env (i + 1)
                 (st\<lparr>spages := (spages st)[i := src_page (src_at env i)],
                     dpages := (dpages st)[i := None], dpages_fail := True\<rparr>)
           | Some pg \<Rightarrow>
               to_card_stage args env (i + 1)
                 (st\<lparr>spages := (spages st)[i := src_page (src_at env i)],
                     dpages := (dpages st)[i := Some pg],
                     dst := (dst st)[i := Dst_locked pg (pfn_write (src_at env i))],
                     staged := staged st @ [Get_page pg, Lock_page pg]\<rparr>))
      else st)"
  by pat_completeness auto
termination
  by (relation "measure (\<lambda>(args, env, i, st). unat (mig_npages args) - i)") auto

declare to_card_stage.simps [simp del]

text \<open>
  The zone setup. For each \<open>i < cpages\<close> the inner \<open>while (!dpages[j] || dst[i] == 0) j++\<close>
  moves \<open>j\<close> to the next non-null destination page; it tests \<open>dst[i]\<close>, which it never
  changes, so with \<open>dst[i] == 0\<close> it runs \<open>j\<close> past the end of \<open>dpages\<close>. \<open>j\<close> is not
  advanced after the assignment. The result is the \<open>card_address\<close> of each page's
  \<open>zone_device_data\<close> afterwards.
\<close>

function next_page :: "page option list \<Rightarrow> nat \<Rightarrow> (nat \<times> page) option" where
  "next_page dps j =
     (if j < length dps then
        (case dps ! j of None \<Rightarrow> next_page dps (j + 1) | Some pg \<Rightarrow> Some (j, pg))
      else None)"
  by pat_completeness auto
termination
  by (relation "measure (\<lambda>(dps, j). length dps - j)") auto

declare next_page.simps [simp del]

definition calloc_at :: "u64 list \<Rightarrow> nat \<Rightarrow> u64" where
  "calloc_at cs i = (if i < length cs then cs ! i else 0)"

function zone_setup ::
  "nat \<Rightarrow> u64 list \<Rightarrow> stage \<Rightarrow> nat \<Rightarrow> nat \<Rightarrow> (page \<Rightarrow> u64 option) \<times> event list
    \<Rightarrow> fault + (page \<Rightarrow> u64 option) \<times> event list" where
  "zone_setup cpages cs st i j (z, es) =
     (if i < cpages then
        if length (dst st) \<le> i then Inl Out_of_bounds
        else if dst st ! i = Dst_zero then Inl Out_of_bounds
        else case next_page (dpages st) j of
          None \<Rightarrow> Inl Out_of_bounds
        | Some (j', pg) \<Rightarrow>
            zone_setup cpages cs st (i + 1) j'
              (z(pg := Some (calloc_at cs i)), es @ [List_add_migrated (calloc_at cs i)])
      else Inr (z, es))"
  by pat_completeness auto
termination
  by (relation "measure (\<lambda>(cpages, cs, st, i, j, acc). cpages - i)") auto

declare zone_setup.simps [simp del]

text \<open>
  The loop "set physical addresses" of \<open>fpga_migrate_to_card\<close>: \<open>card_address[i]\<close> is
  read through \<open>dpages[i]->zone_device_data\<close>. \<open>None\<close>: that pointer is null.
\<close>

fun dest_card_addresses :: "(page \<Rightarrow> u64 option) \<Rightarrow> page option list \<Rightarrow> u64 list option" where
  "dest_card_addresses z [] = Some []"
| "dest_card_addresses z (None # ps) = map_option ((#) 0) (dest_card_addresses z ps)"
| "dest_card_addresses z (Some pg # ps) =
     (case z pg of
        None \<Rightarrow> None
      | Some a \<Rightarrow> map_option ((#) a) (dest_card_addresses z ps))"

text \<open>
  The \<open>zone_device_data\<close> pointers before the zone setup: null for every page that
  \<open>alloc_private_page\<close> handed out (it clears the pointer), as the kernel has them for
  the pages found by \<open>host_ptw\<close>.
\<close>

definition zone_after_alloc :: "migrate_env \<Rightarrow> stage \<Rightarrow> page \<Rightarrow> u64 option" where
  "zone_after_alloc env st pg =
     (if Dst_locked pg True \<in> set (dst st) \<or> Dst_locked pg False \<in> set (dst st) then None
      else zone_card_address env pg)"

text \<open>
  \<open>fpga_migrate_to_card\<close> from the allocation of the address arrays to its end. The
  \<open>kzalloc\<close> of each zone entry is taken to succeed (the code stops on \<open>BUG_ON\<close>
  otherwise).
\<close>

definition to_card_finish ::
  "nat \<Rightarrow> bus_driver_data \<Rightarrow> cyt_migrate \<Rightarrow> migrate_env \<Rightarrow> stage \<Rightarrow> fault + (int \<times> event list)" where
  "to_card_finish maxn bd args env st =
     (if \<not> vmalloc_ok env 4 then Inr (- ENOMEM, [])
      else if \<not> vmalloc_ok env 5 then Inr (- ENOMEM, [])
      else if setup_cpages env > 0 \<and> \<not> vmalloc_ok env 6 then Inl Bug_on
      else if setup_cpages env > 0 \<and> card_memory env = None
      then Inr (- ENOMEM, [Alloc_card_memory (setup_cpages env) (hugepages args)])
      else
        case zone_setup (setup_cpages env) (case card_memory env of None \<Rightarrow> [] | Some cs \<Rightarrow> cs)
               st 0 0 (zone_after_alloc env st, []) of
          Inl f \<Rightarrow> Inl f
        | Inr (z, zs) \<Rightarrow>
            (case dest_card_addresses z (dpages st) of
               None \<Rightarrow> Inl Null_deref
             | Some cas \<Rightarrow>
                 let host_address = take (unat (mig_npages args)) (map page_to_pfn (spages st));
                     card_address = take (unat (mig_npages args)) cas
                 in case tlb_map_hmm maxn bd (drop_bit PAGE_SHIFT (vaddr args)) card_address
                           (ucast (mig_npages args)) CARD_ACCESS (ctid args) (hpid args)
                           (hugepages args) of
                      Inl f \<Rightarrow> Inl f
                    | Inr ms \<Rightarrow>
                        Inr (0,
                          (if setup_cpages env > 0
                           then [Alloc_card_memory (setup_cpages env) (hugepages args)]
                           else [])
                          @ zs @ [Wait_event Waitqueue_invldt]
                          @ (if setup_cpages env > 0
                             then [Mutex_lock Offload_lock,
                                   Trigger_dma_offload host_address card_address
                                     (unat (mig_npages args)) (hugepages args),
                                   Wait_event Waitqueue_offload, Mutex_unlock Offload_lock]
                             else [])
                          @ [Migrate_vma_pages (dst st), Migrate_vma_finalize] @ ms)))"

definition fpga_migrate_to_card ::
  "nat \<Rightarrow> bus_driver_data \<Rightarrow> cyt_migrate \<Rightarrow> migrate_env \<Rightarrow> fault + (int \<times> event list)" where
  "fpga_migrate_to_card maxn bd args env =
     (if \<not> vmalloc_ok env 0 then Inr (- ENOMEM, [])
      else if \<not> vmalloc_ok env 1 then Inr (- ENOMEM, [])
      else if \<not> vmalloc_ok env 2 then Inr (- ENOMEM, [])
      else if \<not> vmalloc_ok env 3 then Inr (- ENOMEM, [])
      else if \<not> vma_found env then Inr (- EFAULT, [])
      else if setup_ret env \<noteq> 0 then Inr (setup_ret env, [])
      else case tlb_unmap_hmm bd (drop_bit PAGE_SHIFT (vaddr args)) (ucast (mig_npages args))
                  (hpid args) (hugepages args) of
        Inl f \<Rightarrow> Inl f
      | Inr us \<Rightarrow>
          let st = to_card_stage args env 0 (init_stage (unat (n_pages args)))
          in if dpages_fail st
             then Inr (- ENOMEM, us @ staged st @ undo_staged (unat (n_pages args)) st)
             else (case to_card_finish maxn bd args env st of
                     Inl f \<Rightarrow> Inl f
                   | Inr (ret_val, es) \<Rightarrow> Inr (ret_val, us @ staged st @ es)))"

section \<open>Both directions\<close>

datatype direction = To_host | To_card

definition fpga_migrate ::
  "direction \<Rightarrow> nat \<Rightarrow> bus_driver_data \<Rightarrow> cyt_migrate \<Rightarrow> migrate_env
    \<Rightarrow> fault + (int \<times> event list)" where
  "fpga_migrate dir maxn bd args env =
     (case dir of
        To_host \<Rightarrow> fpga_migrate_to_host maxn bd args env
      | To_card \<Rightarrow> fpga_migrate_to_card maxn bd args env)"

text \<open>
  The destination pages the staging loop obtains for the indices below \<open>i\<close>, in order:
  one for each page that \<open>migrate_vma_setup\<close> marked for migration and whose allocation
  succeeded. What staging does with such a page, and what the undo loop does with it.
\<close>

fun staged_upto :: "migrate_env \<Rightarrow> nat \<Rightarrow> page list" where
  "staged_upto env 0 = []"
| "staged_upto env (Suc i) =
     staged_upto env i
     @ (if pfn_migrate (src_at env i)
        then (case alloc_dst env i of None \<Rightarrow> [] | Some pg \<Rightarrow> [pg])
        else [])"

definition staged_pages :: "cyt_migrate \<Rightarrow> migrate_env \<Rightarrow> page list" where
  "staged_pages args env = staged_upto env (unat (mig_npages args))"

fun stage_events :: "direction \<Rightarrow> page \<Rightarrow> event list" where
  "stage_events To_host pg = [Lock_page pg]"
| "stage_events To_card pg = [Get_page pg, Lock_page pg]"

definition undo_events :: "page \<Rightarrow> event list" where
  "undo_events pg = [Unlock_page pg, Put_page pg, Cpu_free_private_page pg]"

text \<open>The pages of the non-zero entries of a \<open>dst\<close> array, in order.\<close>

fun locked_in :: "dst_entry list \<Rightarrow> page list" where
  "locked_in [] = []"
| "locked_in (Dst_zero # ds) = locked_in ds"
| "locked_in (Dst_locked pg w # ds) = pg # locked_in ds"

text \<open>
  What holds of the arrays when the staging loop of direction \<open>dir\<close> is at index \<open>i\<close>:
  \<open>dst\<close> is zero from \<open>i\<close> on, a non-zero \<open>dst\<close> entry names the page in \<open>dpages\<close> at
  the same index, and the non-zero entries are the pages staged so far, each with its
  staging calls made.
\<close>

definition stage_inv :: "direction \<Rightarrow> migrate_env \<Rightarrow> nat \<Rightarrow> nat \<Rightarrow> stage \<Rightarrow> bool" where
  "stage_inv dir env n i st \<longleftrightarrow>
     length (dpages st) = n \<and> length (dst st) = n
     \<and> (\<forall>k<n. i \<le> k \<longrightarrow> dst st ! k = Dst_zero)
     \<and> (\<forall>k<n. \<forall>p w. dst st ! k = Dst_locked p w \<longrightarrow> dpages st ! k = Some p)
     \<and> locked_in (dst st) = staged_upto env i
     \<and> staged st = concat (map (stage_events dir) (staged_upto env i))"

text \<open>Events that neither take nor release the device-wide migration lock.\<close>

fun mmu_free :: "event \<Rightarrow> bool" where
  "mmu_free (Mutex_lock l) = (l \<noteq> Mmu_lock)"
| "mmu_free (Mutex_trylock l b) = (l \<noteq> Mmu_lock)"
| "mmu_free (Mutex_unlock l) = (l \<noteq> Mmu_lock)"
| "mmu_free (Spin_lock l) = (l \<noteq> Mmu_lock)"
| "mmu_free (Spin_unlock l) = (l \<noteq> Mmu_lock)"
| "mmu_free e = True"

section \<open>Concrete inputs\<close>

text \<open>A blockable invalidation of the one regular page at bytes \<open>0x1000 .. 0x1FFF\<close>.\<close>

definition notify_page1 :: mmu_notifier_range where
  "notify_page1 = \<lparr>range_start = 0x1000, range_end = 0x2000, event_is_migrate = False,
     owner_is_d = False, blockable = True\<rparr>"

text \<open>A device with an empty free list and no chunk.\<close>

definition dev_empty :: vfpga_dev where
  "dev_empty = \<lparr>free_pages = [], mem_sections = []\<rparr>"

text \<open>The kernel refuses the management struct; the kernel refuses only the remap.\<close>

definition env_no_kzalloc :: grow_env where
  "env_no_kzalloc = \<lparr>kzalloc_ok = False, mem_region = None, memremap_ok = False\<rparr>"

definition env_no_remap :: grow_env where
  "env_no_remap = \<lparr>kzalloc_ok = True, mem_region = Some (0x100000000, 0x10FFFFFFF),
     memremap_ok = False\<rparr>"

text \<open>
  A pass that faults successfully and finds the sequence number stale, and a pass that
  faults successfully and finds it current.
\<close>

definition ob_stale :: fault_obs where
  "ob_stale = \<lparr>timed_out = False, fault_ret = 0, read_retry = True\<rparr>"

definition ob_done :: fault_obs where
  "ob_done = \<lparr>timed_out = False, fault_ret = 0, read_retry = False\<rparr>"

text \<open>
  A migration of one regular page at byte address \<open>0x10000\<close> (page 16) for context 3 of
  host process 7. The page is resident on the device in page 900, whose card address is
  \<open>0xC000\<close>; the kernel collects it for migration and allocates host page 77 for it.
\<close>

definition args_one_page :: cyt_migrate where
  "args_one_page = \<lparr>ctid = 3, hpid = 7, vaddr = 0x10000, n_pages = 1, hugepages = False\<rparr>"

definition env_one_page :: migrate_env where
  "env_one_page = \<lparr>vmalloc_ok = (\<lambda>k. True), vma_found = True, setup_ret = 0,
     setup_src = [\<lparr>pfn_migrate = True, pfn_write = True, src_page = Some 900\<rparr>],
     setup_cpages = 1, host_ptw = (\<lambda>i. None), alloc_dst = (\<lambda>i. Some 77),
     zone_card_address = (\<lambda>pg. if pg = 900 then Some 0xC000 else None),
     card_memory = Some [0xD000]\<rparr>"

text \<open>The calls of \<open>user_migrate_to_host\<close> for that migration.\<close>

definition user_trace_one_page :: "event list" where
  "user_trace_one_page =
     [Mutex_lock Mmu_lock, Change_tlb_lock, Mmget, Mmap_read_lock,
      Create_tlb_unmapping False 16 7, Invalidate_tlb_entry 16 1 7 True,
      Lock_page 77, List_del_migrated 900,
      Free_card_memory [0xC000] 1 False, Wait_event Waitqueue_invldt,
      Mutex_lock Sync_lock, Trigger_dma_sync [0xC000] [77] 1 False,
      Wait_event Waitqueue_sync, Mutex_unlock Sync_lock,
      Migrate_vma_pages [Dst_locked 77 True], Migrate_vma_finalize,
      Create_tlb_mapping False 16 0xC000 STRM_ACCESS 3 7,
      Mmap_read_unlock, Mmput, Change_tlb_lock, Mutex_unlock Mmu_lock]"

text \<open>
  A migration of three regular pages from page 16; all three are marked for migration;
  the allocation of a destination page succeeds for the first two (pages 500 and 501) and
  fails for the third.
\<close>

definition args_three_pages :: cyt_migrate where
  "args_three_pages = \<lparr>ctid = 3, hpid = 7, vaddr = 0x10000, n_pages = 3, hugepages = False\<rparr>"

definition env_third_fails :: migrate_env where
  "env_third_fails = \<lparr>vmalloc_ok = (\<lambda>k. True), vma_found = True, setup_ret = 0,
     setup_src = replicate 3 \<lparr>pfn_migrate = True, pfn_write = True, src_page = Some 900\<rparr>,
     setup_cpages = 3, host_ptw = (\<lambda>i. None),
     alloc_dst = (\<lambda>i. if i < 2 then Some (500 + i) else None),
     zone_card_address = (\<lambda>pg. None), card_memory = None\<rparr>"

definition unmap_three_pages :: "event list" where
  "unmap_three_pages =
     [Create_tlb_unmapping False 16 7, Create_tlb_unmapping False 17 7,
      Create_tlb_unmapping False 18 7, Invalidate_tlb_entry 16 1 7 False,
      Invalidate_tlb_entry 17 1 7 False, Invalidate_tlb_entry 18 1 7 True]"

section \<open>Properties\<close>

subsection \<open>\<open>tlb_map_hmm\<close> and \<open>tlb_unmap_hmm\<close>\<close>

text \<open>
  Claim C4. The claim: every slot whose physical address is not the sentinel 0 is
  installed at the virtual page of its position in the range. The code: after a skipped
  slot \<open>tmp_vaddr\<close> is not advanced, so later slots are installed one page too low for
  every sentinel before them. With base page 100 and the array \<open>[0, 5]\<close>, slot 1 belongs
  at page 101; the one mapping created is at page 100.
\<close>

theorem tlb_map_hmm_after_sentinel_maps_at_base:
  "tlb_map_hmm 128 bd_4k_2m 100 [0, 5] 2 STRM_ACCESS 3 7 False
     = Inr [Create_tlb_mapping False 100 5 STRM_ACCESS 3 7]
   \<and> claimed_install 100 [0, 5] = [(101, 5)]"
  by (simp add: tlb_map_hmm_def tlb_map_loop.simps claimed_install_def)

text \<open>
  Claim C9. The claim: install stops at the cap on its loop index while remove walks the
  whole requested range. The code of remove, at huge granularity: the loop index, which
  advances by \<open>n_pages_in_huge\<close>, is compared with the number of huge pages. A range of
  two huge pages (1024 regular pages from page 0) gets one unmapping and one
  invalidation, both for the first huge page; the huge page at 512 is never reached.
\<close>

theorem tlb_unmap_hmm_two_huge_pages_unmaps_one:
  "tlb_unmap_hmm bd_4k_2m 0 1024 7 True
     = Inr [Create_tlb_unmapping True 0 7, Invalidate_tlb_entry 0 512 7 False]
   \<and> claimed_unmap bd_4k_2m 0 1024 True = [0, 512]"
  by (simp add: tlb_unmap_hmm_def bd_4k_2m_def tlb_unmap_loop.simps tlb_invalidate_loop.simps
      claimed_unmap_def upt_rec)

subsection \<open>\<open>cyt_interval_invalidate\<close>\<close>

text \<open>
  Claim C3. The claim: the entries removed are those of the virtual pages in the reported
  range, rounded to the granularity. The code hands \<open>start << PAGE_SHIFT\<close> to
  \<open>tlb_unmap_hmm\<close>, where \<open>start\<close> is already a byte address and \<open>tlb_unmap_hmm\<close> counts
  in pages. For bytes \<open>0x1000 .. 0x1FFF\<close> (page 1) the unmapping and the invalidation
  go to page \<open>0x1000000\<close>; page 1 is not touched.
\<close>

theorem cyt_interval_invalidate_unmaps_shifted_page:
  "cyt_interval_invalidate bd_4k_2m 7 notify_page1 5 False True
     = Inr (True, [Mutex_lock Mmu_lock, Mmu_interval_set_seq 5,
          Create_tlb_unmapping False 0x1000000 7, Invalidate_tlb_entry 0x1000000 1 7 True,
          Mutex_unlock Mmu_lock])
   \<and> rounded_range_pages bd_4k_2m False notify_page1 = [1]"
  by (simp add: cyt_interval_invalidate_def rounded_range_pages_def notify_page1_def
      bd_4k_2m_def meta_4k_def tlb_meta_of_def PAGE_SHIFT_def tlb_unmap_hmm_def
      tlb_unmap_loop.simps tlb_invalidate_loop.simps)

subsection \<open>\<open>mmu_handler_hmm\<close>\<close>

text \<open>
  Claim C7. The claim: at huge granularity the page count is the number of huge pages
  spanned times the regular pages in a huge page. The code shifts the huge-aligned
  addresses by \<open>PAGE_SHIFT\<close>, so \<open>last - first + 1\<close> counts regular pages, and then
  multiplies by \<open>n_pages_in_huge\<close>. For 4 MiB from address 0 (two huge pages, 1024
  regular pages) the code computes 513 * 512 = 262656.
\<close>

theorem mmu_handler_n_pages_two_huge_pages:
  "mmu_handler_n_pages bd_4k_2m True 0 0x400000 = 262656
   \<and> claimed_page_count bd_4k_2m True 0 0x400000 = 1024"
  by (simp add: mmu_handler_n_pages_def mmu_handler_first_def mmu_handler_last_def
      claimed_page_count_def granules_spanned_def bd_4k_2m_def meta_2m_def tlb_meta_of_def
      PAGE_SHIFT_def)

subsection \<open>The allocator\<close>

text \<open>
  Claim C6. The claim: growth either succeeds with the chunk's pages on the free list and
  the chunk recorded, or fails, releases what it holds and reports \<open>-ENOMEM\<close>. The code,
  when \<open>memremap_pages\<close> fails: the region and the management struct are released, the
  free list and the chunk list are unchanged, and the return value is 0.
\<close>

theorem alloc_new_prvt_pages_remap_failure_returns_zero:
  "alloc_new_prvt_pages env_no_remap dev_empty
     = (0, dev_empty, [Release_mem_region 0x100000000 0x10000000, Kfree_devmem])"
  by (simp add: alloc_new_prvt_pages_def env_no_remap_def range_len_def)

text \<open>
  Claim C10. The claim: on every return of \<open>alloc_private_page\<close> the free-list lock has
  been released exactly as often as it was taken. The code, with an empty free list and
  a failed growth: \<open>spin_unlock(&d->page_lock)\<close> without a \<open>spin_lock\<close> before it.
\<close>

theorem alloc_private_page_growth_failure_unlocks_unheld:
  "alloc_private_page env_no_kzalloc dev_empty = Inr (None, dev_empty, [Spin_unlock Page_lock])
   \<and> lock_depth Page_lock [Spin_unlock Page_lock] 0 = None"
  by (simp add: alloc_private_page_def alloc_new_prvt_pages_def env_no_kzalloc_def
      dev_empty_def ENOMEM_def)

subsection \<open>The retry loop of \<open>fpga_do_host_fault\<close>\<close>

lemma count_faults_append: "count_faults (es @ es') = count_faults es + count_faults es'"
  by (induction es rule: count_faults.induct) simp_all

lemma count_after_events:
  "map_option (\<lambda>(r, es). (r, count_faults es)) (after_events pre res)
     = map_option (\<lambda>(r, n). (r, count_faults pre + n))
         (map_option (\<lambda>(r, es). (r, count_faults es)) res)"
  by (cases res) (auto simp: count_faults_append)

text \<open>
  Claim C5, as the code has it. Passes that see transient contention (\<open>-EBUSY\<close> from the
  fault) or a stale sequence number send the loop back to its top, where the timeout is
  checked, the sequence number read and the range faulted again: after \<open>length pre\<close>
  such passes the first other pass decides the result, and \<open>hmm_range_fault\<close> has been
  called once per retry pass and once more unless that last pass timed out. The result is
  \<open>-EBUSY\<close> on timeout, the fault's error code on any other failure, 0 otherwise.
\<close>

theorem host_fault_loop_retries:
  "list_all is_retry pre \<Longrightarrow> \<not> is_retry ob \<Longrightarrow>
     map_option (\<lambda>(r, es). (r, count_faults es)) (host_fault_loop (pre @ ob # rest))
       = Some (exit_code ob, length pre + (if timed_out ob then 0 else 1))"
proof (induction pre)
  case Nil
  then show ?case
    by (auto simp: is_retry_def exit_code_def EBUSY_def)
next
  case (Cons a pre)
  then have ih: "map_option (\<lambda>(r, es). (r, count_faults es)) (host_fault_loop (pre @ ob # rest))
       = Some (exit_code ob, length pre + (if timed_out ob then 0 else 1))"
    by simp
  from Cons.prems have a: "is_retry a" by simp
  show ?case
  proof (cases "fault_ret a = 0")
    case True
    with a have "read_retry a" "\<not> timed_out a" by (auto simp: is_retry_def EBUSY_def)
    with True show ?thesis
      by (simp add: count_after_events ih)
  next
    case False
    with a have "fault_ret a = - EBUSY" "\<not> timed_out a" by (auto simp: is_retry_def)
    with False show ?thesis
      by (simp add: count_after_events ih)
  qed
qed

theorem host_fault_loop_retries_witness:
  "list_all is_retry [ob_stale] \<and> \<not> is_retry ob_done \<and>
   map_option (\<lambda>(r, es). (r, count_faults es)) (host_fault_loop ([ob_stale] @ ob_done # []))
       = Some (0, 2)"
  using host_fault_loop_retries [of "[ob_stale]" ob_done "[]"]
  by (simp add: is_retry_def exit_code_def ob_stale_def ob_done_def EBUSY_def)

text \<open>
  The claim says that a stale sequence number is retried without faulting again. One
  stale pass followed by a good one: the loop returns 0 after two calls of
  \<open>hmm_range_fault\<close>.
\<close>

theorem host_fault_loop_stale_faults_again:
  "map_option (\<lambda>(r, es). (r, count_faults es)) (host_fault_loop [ob_stale, ob_done])
     = Some (0, 2)"
  by (simp add: ob_stale_def ob_done_def)

subsection \<open>\<open>fpga_migrate_to_host\<close>\<close>

lemmas to_host_defs = fpga_migrate_to_host_def to_host_finish_def free_vacated_def
  tlb_unmap_hmm_def tlb_map_hmm_def mig_npages_def init_stage_def undo_staged_def
  page_to_pfn_def src_at_def PAGE_SHIFT_def Let_def
  tlb_map_loop.simps tlb_unmap_loop.simps tlb_invalidate_loop.simps to_host_stage.simps
  undo_loop.simps

text \<open>
  Claim C1. The claim: after a successful migration to host the TLB entries installed
  point at the freshly allocated host pages. The code fills the array \<open>host_address\<close>
  with the card addresses of the source pages (the device memory being vacated, which
  it has just returned to the card allocator) and \<open>card_address\<close> with the page frame
  numbers of the new host pages, and installs \<open>host_address\<close>. One page, device page 900
  at card address \<open>0xC000\<close>, new host page 77: the entry installed for page 16 is
  \<open>0xC000\<close>.
\<close>

theorem fpga_migrate_to_host_maps_vacated_card_address:
  "fpga_migrate_to_host 128 bd_4k_2m args_one_page env_one_page
     = Inr (0, [Create_tlb_unmapping False 16 7, Invalidate_tlb_entry 16 1 7 True,
          Lock_page 77, List_del_migrated 900,
          Free_card_memory [0xC000] 1 False, Wait_event Waitqueue_invldt,
          Mutex_lock Sync_lock, Trigger_dma_sync [0xC000] [77] 1 False,
          Wait_event Waitqueue_sync, Mutex_unlock Sync_lock,
          Migrate_vma_pages [Dst_locked 77 True], Migrate_vma_finalize,
          Create_tlb_mapping False 16 0xC000 STRM_ACCESS 3 7])"
  by (simp add: to_host_defs args_one_page_def env_one_page_def)

subsection \<open>The migration lock in \<open>user_migrate_to_host\<close>\<close>

text \<open>No function below \<open>user_migrate_to_host\<close> takes or releases the migration lock.\<close>

lemma prepend_Inr: "prepend e r = Inr es \<Longrightarrow> \<exists>es'. r = Inr es' \<and> es = e # es'"
  by (cases r) auto

lemma then_events_Inr:
  "then_events a b = Inr es \<Longrightarrow> \<exists>xs ys. a = Inr xs \<and> b = Inr ys \<and> es = xs @ ys"
  by (cases a; cases b) auto

lemma tlb_unmap_loop_mmu_free:
  "tlb_unmap_loop huge pg_inc n h i v = Inr es \<Longrightarrow> list_all mmu_free es"
proof (induction huge pg_inc n h i v arbitrary: es rule: tlb_unmap_loop.induct)
  case (1 huge pg_inc n h i v)
  show ?case
  proof (cases "i < unat n")
    case True
    with "1.prems" have nz: "pg_inc \<noteq> 0"
      by (subst (asm) tlb_unmap_loop.simps) (auto split: if_splits)
    with True "1.prems" obtain es' where
      r: "tlb_unmap_loop huge pg_inc n h (i + unat pg_inc) (v + ucast pg_inc) = Inr es'"
      and es: "es = Create_tlb_unmapping huge v h # es'"
      by (subst (asm) tlb_unmap_loop.simps) (auto dest: prepend_Inr)
    from "1.IH" [OF True nz r] es show ?thesis by simp
  next
    case False
    with "1.prems" show ?thesis
      by (subst (asm) tlb_unmap_loop.simps) auto
  qed
qed


lemma tlb_invalidate_loop_mmu_free:
  "tlb_invalidate_loop pg_inc n h i v = Inr es \<Longrightarrow> list_all mmu_free es"
proof (induction pg_inc n h i v arbitrary: es rule: tlb_invalidate_loop.induct)
  case (1 pg_inc n h i v)
  show ?case
  proof (cases "i < unat n")
    case True
    with "1.prems" have nz: "pg_inc \<noteq> 0"
      by (subst (asm) tlb_invalidate_loop.simps) (auto split: if_splits)
    with True "1.prems" obtain es' where
      r: "tlb_invalidate_loop pg_inc n h (i + unat pg_inc) (v + ucast pg_inc) = Inr es'"
      and es: "es = Invalidate_tlb_entry v pg_inc h (of_nat i = n - pg_inc) # es'"
      by (subst (asm) tlb_invalidate_loop.simps) (auto dest: prepend_Inr)
    from "1.IH" [OF True nz r] es show ?thesis by simp
  next
    case False
    with "1.prems" show ?thesis
      by (subst (asm) tlb_invalidate_loop.simps) auto
  qed
qed

lemma tlb_map_loop_mmu_free:
  "tlb_map_loop maxn huge pg_inc n paddr host c h i v = Inr es \<Longrightarrow> list_all mmu_free es"
proof (induction maxn huge pg_inc n paddr host c h i v arbitrary: es rule: tlb_map_loop.induct)
  case (1 maxn huge pg_inc n paddr host c h i v)
  show ?case
  proof (cases "i < unat n \<and> i < maxn")
    case True
    with "1.prems" have nz: "pg_inc \<noteq> 0" and len: "\<not> length paddr \<le> i"
      by (subst (asm) tlb_map_loop.simps, auto split: if_splits)+
    show ?thesis
    proof (cases "paddr ! i = 0")
      case z: True
      with True nz len "1.prems" have
        "tlb_map_loop maxn huge pg_inc n paddr host c h (i + unat pg_inc) v = Inr es"
        by (subst (asm) tlb_map_loop.simps) auto
      from "1.IH"(1) [OF True nz len z this] show ?thesis .
    next
      case nzp: False
      with True nz len "1.prems" obtain es' where
        r: "tlb_map_loop maxn huge pg_inc n paddr host c h (i + unat pg_inc) (v + ucast pg_inc)
              = Inr es'"
        and es: "es = Create_tlb_mapping huge v (paddr ! i) host c h # es'"
        by (subst (asm) tlb_map_loop.simps) (auto dest: prepend_Inr)
      from "1.IH"(2) [OF True nz len nzp r] es show ?thesis by simp
    qed
  next
    case False
    with "1.prems" show ?thesis
      by (subst (asm) tlb_map_loop.simps) auto
  qed
qed

lemma tlb_unmap_hmm_mmu_free: "tlb_unmap_hmm bd v n h huge = Inr es \<Longrightarrow> list_all mmu_free es"
  unfolding tlb_unmap_hmm_def Let_def
  by (auto dest!: then_events_Inr tlb_unmap_loop_mmu_free tlb_invalidate_loop_mmu_free)

lemma tlb_map_hmm_mmu_free:
  "tlb_map_hmm maxn bd v paddr n host c h huge = Inr es \<Longrightarrow> list_all mmu_free es"
  unfolding tlb_map_hmm_def Let_def
  by (auto dest: tlb_map_loop_mmu_free)


lemma to_host_stage_mmu_free:
  "to_host_stage bd args env i st = Inr st' \<Longrightarrow> list_all mmu_free (staged st)
    \<Longrightarrow> list_all mmu_free (staged st')"
proof (induction bd args env i st arbitrary: st' rule: to_host_stage.induct)
  case (1 bd args env i st)
  from "1.prems" "1.IH" show ?case
    by (subst (asm) to_host_stage.simps) (auto split: if_splits option.splits)
qed

lemma to_host_stage_init_mmu_free:
  "to_host_stage bd args env i (init_stage n) = Inr st' \<Longrightarrow> list_all mmu_free (staged st')"
  by (erule to_host_stage_mmu_free) (simp add: init_stage_def)

lemma undo_loop_mmu_free:
  "undo_loop dps n i (ds, es) = (ds', es') \<Longrightarrow> list_all mmu_free es \<Longrightarrow> list_all mmu_free es'"
proof (induction dps n i "(ds, es)" arbitrary: ds es ds' es' rule: undo_loop.induct)
  case (1 dps n i ds es)
  from "1.prems" "1.hyps" show ?case
    by (subst (asm) undo_loop.simps) (auto split: if_splits option.splits)
qed

lemma vacated_mmu_free: "vacated z ps = Some (as, es) \<Longrightarrow> list_all mmu_free es"
  by (induction z ps arbitrary: as es rule: vacated.induct) (auto split: option.splits)

lemma undo_staged_mmu_free: "list_all mmu_free (undo_staged n st)"
  unfolding undo_staged_def
  by (auto split: prod.splits dest: undo_loop_mmu_free)

lemma free_vacated_mmu_free: "free_vacated env args st = Inr es \<Longrightarrow> list_all mmu_free es"
  unfolding free_vacated_def
  using vacated_mmu_free [of "zone_card_address env" "take (unat (mig_npages args)) (spages st)"]
  by (auto split: if_splits option.splits)

lemma to_host_finish_mmu_free:
  "to_host_finish maxn bd args env st = Inr (r, es) \<Longrightarrow> list_all mmu_free es"
  unfolding to_host_finish_def Let_def
  by (auto split: if_splits option.splits sum.splits
      intro: free_vacated_mmu_free tlb_map_hmm_mmu_free)

lemma fpga_migrate_to_host_mmu_free:
  "fpga_migrate_to_host maxn bd args env = Inr (r, es) \<Longrightarrow> list_all mmu_free es"
  unfolding fpga_migrate_to_host_def
  by (auto split: if_splits sum.splits simp: undo_staged_mmu_free
      intro: tlb_unmap_hmm_mmu_free to_host_finish_mmu_free to_host_stage_init_mmu_free)

lemma waits_while_mmu_free:
  "list_all mmu_free es \<Longrightarrow>
     list_all snd (waits_while Mmu_lock True (es @ es')) = list_all snd (waits_while Mmu_lock True es')"
  by (induction es) (auto split: option.splits)

lemma lock_depth_mmu_free:
  "list_all mmu_free es \<Longrightarrow> lock_depth Mmu_lock (es @ es') n = lock_depth Mmu_lock es' n"
  by (induction es arbitrary: n) auto

text \<open>
  Claim C8, as the code has it. \<open>user_migrate_to_host\<close> takes the device-wide migration
  lock before it calls \<open>fpga_migrate_to_host\<close> and releases it after that call has
  returned: in every execution that returns, each wait (the wait for the invalidation
  and the wait for the DMA) blocks with the lock held, and the lock is free at the end.
\<close>

theorem user_migrate_to_host_holds_mmu_lock:
  "user_migrate_to_host maxn bd args thp env = Inr (r, es) \<Longrightarrow>
     list_all snd (waits_while Mmu_lock False es) \<and> lock_depth Mmu_lock es 0 = Some 0"
  unfolding user_migrate_to_host_def
  by (auto split: sum.splits simp: waits_while_mmu_free lock_depth_mmu_free
      dest!: fpga_migrate_to_host_mmu_free)

theorem user_migrate_to_host_holds_mmu_lock_witness:
  "user_migrate_to_host 128 bd_4k_2m args_one_page False env_one_page
     = Inr (0, user_trace_one_page)
   \<and> list_all snd (waits_while Mmu_lock False user_trace_one_page)
   \<and> lock_depth Mmu_lock user_trace_one_page 0 = Some 0"
proof -
  have run: "user_migrate_to_host 128 bd_4k_2m args_one_page False env_one_page
     = Inr (0, user_trace_one_page)"
    by (simp add: user_migrate_to_host_def to_host_defs args_one_page_def env_one_page_def
        user_trace_one_page_def)
  from user_migrate_to_host_holds_mmu_lock [OF run] run show ?thesis by simp
qed

text \<open>
  The claim says that the lock is released before the DMA wait. The one-page migration:
  both waits of the execution block while it holds the lock.
\<close>

theorem user_migrate_to_host_waits_for_dma_under_mmu_lock:
  "map_sum id (\<lambda>(r, es). waits_while Mmu_lock False es)
     (user_migrate_to_host 128 bd_4k_2m args_one_page False env_one_page)
   = Inr [(Waitqueue_invldt, True), (Waitqueue_sync, True)]"
  by (simp add: user_migrate_to_host_def to_host_defs args_one_page_def env_one_page_def)

subsection \<open>Failure of a destination allocation\<close>

lemma unat_push_bit_12_div: "unat (push_bit 12 (n :: u32)) div 4096 \<le> unat n"
proof -
  have "unat (push_bit 12 n) = (unat n * 4096) mod 2 ^ 32"
    by (simp add: push_bit_eq_mult unat_word_ariths)
  also have "\<dots> \<le> unat n * 4096" by (rule mod_less_eq_dividend)
  finally show ?thesis by simp
qed

lemma unat_ucast_u32_u64: "unat (ucast (w :: u32) :: u64) = unat w"
  by (simp add: unsigned_ucast_eq take_bit_nat_eq_self unsigned_less [THEN less_le_trans])

lemma mig_npages_le: "unat (mig_npages args) \<le> unat (n_pages args)"
proof -
  have "mig_npages args = drop_bit 12 (ucast (push_bit 12 (n_pages args)))"
    by (simp add: mig_npages_def PAGE_SHIFT_def)
  then have "unat (mig_npages args)
      = drop_bit 12 (unat (ucast (push_bit 12 (n_pages args)) :: u64))"
    by (simp only: unat_drop_bit_eq)
  also have "\<dots> = unat (push_bit 12 (n_pages args)) div 4096"
    by (simp only: unat_ucast_u32_u64 drop_bit_eq_div) simp
  finally show ?thesis
    using unat_push_bit_12_div [of "n_pages args"] by simp
qed

lemma locked_in_append: "locked_in (xs @ ys) = locked_in xs @ locked_in ys"
  by (induction xs rule: locked_in.induct) simp_all

lemma locked_in_zeros: "\<forall>k<length ds. ds ! k = Dst_zero \<Longrightarrow> locked_in ds = []"
proof (induction ds)
  case Nil
  then show ?case by simp
next
  case (Cons d ds)
  from Cons.prems have "d = Dst_zero" by auto
  moreover from Cons.prems have "\<forall>k<length ds. ds ! k = Dst_zero" by auto
  ultimately show ?case using Cons.IH by simp
qed

lemma locked_in_update:
  assumes "i < length ds" and "\<forall>k<length ds. i \<le> k \<longrightarrow> ds ! k = Dst_zero"
  shows "locked_in (ds[i := Dst_locked p w]) = locked_in ds @ [p]"
proof -
  have tail: "locked_in (drop (Suc i) ds) = []"
    using assms by (intro locked_in_zeros) auto
  have "ds ! i = Dst_zero" using assms by simp
  then have ds: "ds = take i ds @ Dst_zero # drop (Suc i) ds"
    using assms(1) by (metis id_take_nth_drop)
  have "ds[i := Dst_locked p w] = take i ds @ Dst_locked p w # drop (Suc i) ds"
    using assms(1) by (rule upd_conv_take_nth_drop)
  then have "locked_in (ds[i := Dst_locked p w]) = locked_in (take i ds) @ [p]"
    by (simp add: locked_in_append tail)
  moreover have "locked_in ds = locked_in (take i ds)"
    by (subst ds) (simp add: locked_in_append tail)
  ultimately show ?thesis by simp
qed

lemma undo_loop_result:
  assumes "length dps = n" "length ds = n" "i \<le> n"
    and "\<forall>k<n. \<forall>p w. ds ! k = Dst_locked p w \<longrightarrow> dps ! k = Some p"
  shows "undo_loop dps n i (ds, es)
     = (take i ds @ replicate (n - i) Dst_zero,
        es @ concat (map undo_events (locked_in (drop i ds))))"
  using assms
proof (induction dps n i "(ds, es)" arbitrary: ds es rule: undo_loop.induct)
  case (1 dps n i ds es)
  show ?case
  proof (cases "i < n")
    case False
    with "1.prems" show ?thesis
      by (subst undo_loop.simps) simp
  next
    case True
    then have rep: "replicate (n - i) Dst_zero = Dst_zero # replicate (n - Suc i) Dst_zero"
      by (cases "n - i") (auto simp: Suc_diff_Suc)
    from True "1.prems" have drp: "drop i ds = ds ! i # drop (Suc i) ds"
      by (simp add: Cons_nth_drop_Suc)
    from True "1.prems" have tk: "take (Suc i) ds = take i ds @ [ds ! i]"
      by (simp add: take_Suc_conv_app_nth)
    show ?thesis
    proof (cases "ds ! i")
      case Dst_zero
      have "undo_loop dps n i (ds, es) = undo_loop dps n (i + 1) (ds, es)"
        using True Dst_zero by (subst undo_loop.simps) (simp split: option.splits)
      also have "\<dots> = (take (i + 1) ds @ replicate (n - (i + 1)) Dst_zero,
          es @ concat (map undo_events (locked_in (drop (i + 1) ds))))"
      proof (cases "dps ! i")
        case None
        from "1.hyps"(1) [OF True None] "1.prems" True show ?thesis by simp
      next
        case (Some pg)
        from "1.hyps"(2) [OF True Some] Dst_zero "1.prems" True show ?thesis by simp
      qed
      finally show ?thesis
        using Dst_zero by (simp add: rep drp tk)
    next
      case (Dst_locked pg w)
      with True "1.prems" have dp: "dps ! i = Some pg" by simp
      have inv: "\<forall>k<n. \<forall>p w. ds[i := Dst_zero] ! k = Dst_locked p w \<longrightarrow> dps ! k = Some p"
        using "1.prems" True by (auto simp: nth_list_update split: if_splits)
      have "undo_loop dps n i (ds, es)
          = undo_loop dps n (i + 1) (ds[i := Dst_zero], es @ [Unlock_page pg, Put_page pg, Cpu_free_private_page pg])"
        using True Dst_locked dp by (subst undo_loop.simps) simp
      also have "\<dots> = (take (i + 1) (ds[i := Dst_zero]) @ replicate (n - (i + 1)) Dst_zero,
          (es @ [Unlock_page pg, Put_page pg, Cpu_free_private_page pg])
            @ concat (map undo_events (locked_in (drop (i + 1) (ds[i := Dst_zero])))))"
        using "1.hyps"(3) [OF True dp] Dst_locked "1.prems" True inv by simp
      finally show ?thesis
        using Dst_locked True "1.prems"
        by (simp add: rep drp take_Suc_conv_app_nth undo_events_def)
    qed
  qed
qed


lemma stage_inv_init: "stage_inv dir env n 0 (init_stage n)"
  by (simp add: stage_inv_def init_stage_def locked_in_zeros)

lemma stage_inv_skip:
  assumes "stage_inv dir env n i st" "i < n"
    and "pfn_migrate (src_at env i) \<longrightarrow> alloc_dst env i = None"
    and "dst st' = dst st" "staged st' = staged st" "dpages st' = (dpages st)[i := x]"
  shows "stage_inv dir env n (Suc i) st'"
proof -
  from assms(1,2) have z: "dst st ! i = Dst_zero" by (simp add: stage_inv_def)
  have "\<forall>k<n. \<forall>p w. dst st ! k = Dst_locked p w \<longrightarrow> (dpages st)[i := x] ! k = Some p"
    using assms(1) z by (auto simp: stage_inv_def nth_list_update)
  moreover have "staged_upto env (Suc i) = staged_upto env i"
    using assms(3) by auto
  ultimately show ?thesis
    using assms by (simp add: stage_inv_def)
qed

lemma stage_inv_lock:
  assumes "stage_inv dir env n i st" "i < n"
    and "pfn_migrate (src_at env i)" "alloc_dst env i = Some pg"
    and "dst st' = (dst st)[i := Dst_locked pg w]"
    and "staged st' = staged st @ stage_events dir pg"
    and "dpages st' = (dpages st)[i := Some pg]"
  shows "stage_inv dir env n (Suc i) st'"
proof -
  from assms(1,2) have len: "i < length (dst st)" "i < length (dpages st)"
    and zs: "\<forall>k<length (dst st). i \<le> k \<longrightarrow> dst st ! k = Dst_zero"
    by (simp_all add: stage_inv_def)
  have l: "locked_in ((dst st)[i := Dst_locked pg w]) = staged_upto env i @ [pg]"
    using locked_in_update [OF len(1) zs] assms(1) by (simp add: stage_inv_def)
  have "\<forall>k<n. \<forall>p w'. (dst st)[i := Dst_locked pg w] ! k = Dst_locked p w'
          \<longrightarrow> (dpages st)[i := Some pg] ! k = Some p"
    using assms(1) len by (auto simp: stage_inv_def nth_list_update)
  moreover have "\<forall>k<n. Suc i \<le> k \<longrightarrow> (dst st)[i := Dst_locked pg w] ! k = Dst_zero"
    using assms(1) by (auto simp: stage_inv_def)
  ultimately show ?thesis
    using assms l by (simp add: stage_inv_def)
qed

lemma to_card_stage_inv:
  "stage_inv To_card env n i st \<Longrightarrow> i \<le> unat (mig_npages args)
    \<Longrightarrow> unat (mig_npages args) \<le> n
    \<Longrightarrow> stage_inv To_card env n (unat (mig_npages args)) (to_card_stage args env i st)"
proof (induction args env i st rule: to_card_stage.induct)
  case (1 args env i st)
  show ?case
  proof (cases "i < unat (mig_npages args)")
    case False
    with "1.prems" show ?thesis by (subst to_card_stage.simps) simp
  next
    case True
    with "1.prems" have lt: "i < n" by simp
    show ?thesis
    proof (cases "pfn_migrate (src_at env i)")
      case False
      have "stage_inv To_card env n (Suc i) (st\<lparr>dpages := (dpages st)[i := host_ptw env i]\<rparr>)"
        by (rule stage_inv_skip [OF "1.prems"(1) lt]) (simp_all add: False)
      from "1.IH"(1) [OF True False] this True "1.prems"(3) False show ?thesis
        by (subst to_card_stage.simps) simp
    next
      case mig: True
      show ?thesis
      proof (cases "alloc_dst env i")
        case None
        have "stage_inv To_card env n (Suc i)
           (st\<lparr>spages := (spages st)[i := src_page (src_at env i)],
               dpages := (dpages st)[i := None], dpages_fail := True\<rparr>)"
          by (rule stage_inv_skip [OF "1.prems"(1) lt]) (simp_all add: None)
        from "1.IH"(2) [OF True _ None] this True "1.prems"(3) mig None show ?thesis
          by (subst to_card_stage.simps) simp
      next
        case (Some pg)
        have "stage_inv To_card env n (Suc i)
           (st\<lparr>spages := (spages st)[i := src_page (src_at env i)],
               dpages := (dpages st)[i := Some pg],
               dst := (dst st)[i := Dst_locked pg (pfn_write (src_at env i))],
               staged := staged st @ [Get_page pg, Lock_page pg]\<rparr>)"
          by (rule stage_inv_lock [OF "1.prems"(1) lt mig Some]) simp_all
        from "1.IH"(3) [OF True _ Some] this True "1.prems"(3) mig Some show ?thesis
          by (subst to_card_stage.simps) simp
      qed
    qed
  qed
qed

lemma to_card_stage_fail_mono:
  "dpages_fail st \<Longrightarrow> dpages_fail (to_card_stage args env i st)"
proof (induction args env i st rule: to_card_stage.induct)
  case (1 args env i st)
  from "1.prems" "1.IH" show ?case
    by (subst to_card_stage.simps) (auto split: option.splits)
qed

lemma to_card_stage_fails:
  "i \<le> k \<Longrightarrow> k < unat (mig_npages args) \<Longrightarrow> pfn_migrate (src_at env k)
    \<Longrightarrow> alloc_dst env k = None \<Longrightarrow> dpages_fail (to_card_stage args env i st)"
proof (induction args env i st rule: to_card_stage.induct)
  case (1 args env i st)
  from "1.prems" have lt: "i < unat (mig_npages args)" by simp
  show ?case
  proof (cases "i = k")
    case True
    with "1.prems" lt show ?thesis
      by (subst to_card_stage.simps) (simp add: to_card_stage_fail_mono)
  next
    case False
    with "1.prems" have "i + 1 \<le> k" by simp
    with "1.IH" "1.prems" lt show ?thesis
      by (subst to_card_stage.simps) (auto split: option.splits)
  qed
qed

lemma to_host_stage_inv:
  "\<not> hugepages args \<Longrightarrow> stage_inv To_host env n i st \<Longrightarrow> i \<le> unat (mig_npages args)
    \<Longrightarrow> unat (mig_npages args) \<le> n
    \<Longrightarrow> \<exists>st'. to_host_stage bd args env i st = Inr st'
          \<and> stage_inv To_host env n (unat (mig_npages args)) st'"
proof (induction bd args env i st rule: to_host_stage.induct)
  case (1 bd args env i st)
  note reg = "1.prems"(1)
  show ?case
  proof (cases "i < unat (mig_npages args)")
    case False
    with "1.prems" show ?thesis by (subst to_host_stage.simps) simp
  next
    case True
    with "1.prems" have lt: "i < n" by simp
    from reg have nh: "\<not> (hugepages args \<and> n_pages_in_huge bd = 0)" by simp
    show ?thesis
    proof (cases "pfn_migrate (src_at env i)")
      case False
      have "stage_inv To_host env n (Suc i) (st\<lparr>dpages := (dpages st)[i := host_ptw env i]\<rparr>)"
        by (rule stage_inv_skip [OF "1.prems"(2) lt]) (simp_all add: False)
      from "1.IH"(1) [OF True nh False] this True "1.prems"(4) False reg show ?thesis
        by (subst to_host_stage.simps) simp
    next
      case mig: True
      show ?thesis
      proof (cases "alloc_dst env i")
        case None
        have "stage_inv To_host env n (Suc i)
           (st\<lparr>spages := (spages st)[i := src_page (src_at env i)],
               dpages := (dpages st)[i := None], dpages_fail := True\<rparr>)"
          by (rule stage_inv_skip [OF "1.prems"(2) lt]) (simp_all add: None)
        from "1.IH"(3) [OF True nh _ reg None] this True "1.prems"(4) mig None reg show ?thesis
          by (subst to_host_stage.simps) simp
      next
        case (Some pg)
        have "stage_inv To_host env n (Suc i)
           (st\<lparr>spages := (spages st)[i := src_page (src_at env i)],
               dpages := (dpages st)[i := Some pg],
               dst := (dst st)[i := Dst_locked pg (pfn_write (src_at env i))],
               staged := staged st @ [Lock_page pg]\<rparr>)"
          by (rule stage_inv_lock [OF "1.prems"(2) lt mig Some]) simp_all
        from "1.IH"(4) [OF True nh _ reg Some] this True "1.prems"(4) mig Some reg show ?thesis
          by (subst to_host_stage.simps) simp
      qed
    qed
  qed
qed

lemma to_host_stage_fail_mono:
  "to_host_stage bd args env i st = Inr st' \<Longrightarrow> dpages_fail st \<Longrightarrow> dpages_fail st'"
proof (induction bd args env i st arbitrary: st' rule: to_host_stage.induct)
  case (1 bd args env i st)
  from "1.prems" "1.IH" show ?case
    by (subst (asm) to_host_stage.simps) (auto split: if_splits option.splits)
qed

lemma to_host_stage_step:
  assumes "\<not> hugepages args" "i < unat (mig_npages args)"
  shows "\<exists>st2. to_host_stage bd args env i st = to_host_stage bd args env (Suc i) st2
     \<and> (pfn_migrate (src_at env i) \<and> alloc_dst env i = None \<longrightarrow> dpages_fail st2)"
proof (cases "pfn_migrate (src_at env i)")
  case False
  with assms have "to_host_stage bd args env i st
      = to_host_stage bd args env (Suc i) (st\<lparr>dpages := (dpages st)[i := host_ptw env i]\<rparr>)"
    by (subst to_host_stage.simps) simp
  with False show ?thesis by blast
next
  case True
  show ?thesis
  proof (cases "alloc_dst env i")
    case None
    with assms True have "to_host_stage bd args env i st
      = to_host_stage bd args env (Suc i)
          (st\<lparr>spages := (spages st)[i := src_page (src_at env i)],
              dpages := (dpages st)[i := None], dpages_fail := True\<rparr>)"
      by (subst to_host_stage.simps) simp
    then show ?thesis
      by (intro exI [of _ "st\<lparr>spages := (spages st)[i := src_page (src_at env i)],
              dpages := (dpages st)[i := None], dpages_fail := True\<rparr>"]) simp
  next
    case (Some pg)
    with assms True have "to_host_stage bd args env i st
      = to_host_stage bd args env (Suc i)
          (st\<lparr>spages := (spages st)[i := src_page (src_at env i)],
              dpages := (dpages st)[i := Some pg],
              dst := (dst st)[i := Dst_locked pg (pfn_write (src_at env i))],
              staged := staged st @ [Lock_page pg]\<rparr>)"
      by (subst to_host_stage.simps) simp
    with Some show ?thesis by auto
  qed
qed

lemma to_host_stage_fails:
  "\<not> hugepages args \<Longrightarrow> to_host_stage bd args env i st = Inr st' \<Longrightarrow> i \<le> k
    \<Longrightarrow> k < unat (mig_npages args) \<Longrightarrow> pfn_migrate (src_at env k)
    \<Longrightarrow> alloc_dst env k = None \<Longrightarrow> dpages_fail st'"
proof (induction "k - i" arbitrary: i st)
  case 0
  then have m: "i < unat (mig_npages args)" "pfn_migrate (src_at env i)"
      "alloc_dst env i = None"
    by simp_all
  from to_host_stage_step [OF "0.prems"(1) m(1), of bd env st] m(2,3)
  obtain st2 where s: "to_host_stage bd args env i st = to_host_stage bd args env (Suc i) st2"
    and f: "dpages_fail st2"
    by blast
  from s "0.prems"(2) have "to_host_stage bd args env (Suc i) st2 = Inr st'" by simp
  then show ?case using f by (rule to_host_stage_fail_mono)
next
  case (Suc d)
  then have lt: "i < unat (mig_npages args)" and le: "Suc i \<le> k" and d: "d = k - Suc i"
    by simp_all
  from to_host_stage_step [OF Suc.prems(1) lt, of bd env st]
  obtain st2 where s: "to_host_stage bd args env i st = to_host_stage bd args env (Suc i) st2"
    by blast
  from s Suc.prems(2) have r: "to_host_stage bd args env (Suc i) st2 = Inr st'" by simp
  from Suc.hyps(1) [OF d Suc.prems(1) r le Suc.prems(4,5,6)] show ?case .
qed

lemma undo_staged_inv:
  assumes "stage_inv dir env n i st"
  shows "undo_staged n st = concat (map undo_events (staged_upto env i))
     @ [Migrate_vma_pages (replicate n Dst_zero), Migrate_vma_finalize]"
proof -
  from assms have "undo_loop (dpages st) n 0 (dst st, [])
      = (take 0 (dst st) @ replicate (n - 0) Dst_zero,
         [] @ concat (map undo_events (locked_in (drop 0 (dst st)))))"
    by (intro undo_loop_result) (simp_all add: stage_inv_def)
  with assms show ?thesis
    by (simp add: undo_staged_def stage_inv_def)
qed

text \<open>
  Claim C2, as the code has it. In a migration to card, and in a migration to host at
  regular granularity, that has allocated its arrays, found the VMA and set up the
  migration: if the allocation of a destination page fails for some page marked for
  migration, the call returns \<open>-ENOMEM\<close>, and its calls are exactly these: the TLB
  entries of the range are removed; each page whose destination could be allocated is
  staged; each staged destination page is unlocked, put and freed, in the same order;
  \<open>migrate_vma_pages\<close> and \<open>migrate_vma_finalize\<close> run on a \<open>dst\<close> array that is all
  zero. There is no DMA and no TLB entry is installed again.
\<close>

theorem migrate_alloc_failure_rolls_back:
  assumes "vmalloc_ok env 0" "vmalloc_ok env 1" "vmalloc_ok env 2" "vmalloc_ok env 3"
    and "vma_found env" "setup_ret env = 0"
    and us: "tlb_unmap_hmm bd (drop_bit PAGE_SHIFT (vaddr args)) (ucast (mig_npages args))
           (hpid args) (hugepages args) = Inr us"
    and dir: "dir = To_card \<or> \<not> hugepages args"
    and fail: "k < unat (mig_npages args)" "pfn_migrate (src_at env k)" "alloc_dst env k = None"
  shows "fpga_migrate dir maxn bd args env
     = Inr (- ENOMEM,
         us @ concat (map (stage_events dir) (staged_pages args env))
         @ concat (map undo_events (staged_pages args env))
         @ [Migrate_vma_pages (replicate (unat (n_pages args)) Dst_zero),
            Migrate_vma_finalize])"
proof (cases dir)
  case To_card
  let ?st = "to_card_stage args env 0 (init_stage (unat (n_pages args)))"
  have inv: "stage_inv To_card env (unat (n_pages args)) (unat (mig_npages args)) ?st"
    by (rule to_card_stage_inv [OF stage_inv_init]) (simp_all add: mig_npages_le)
  have f: "dpages_fail ?st"
    using fail by (intro to_card_stage_fails [of 0 k]) simp_all
  from inv have "staged ?st = concat (map (stage_events To_card) (staged_pages args env))"
    by (simp add: stage_inv_def staged_pages_def)
  with assms(1-6) us f undo_staged_inv [OF inv] To_card show ?thesis
    by (simp add: fpga_migrate_def fpga_migrate_to_card_def staged_pages_def Let_def)
next
  case To_host
  with dir have reg: "\<not> hugepages args" by simp
  obtain st where st: "to_host_stage bd args env 0 (init_stage (unat (n_pages args))) = Inr st"
    and inv: "stage_inv To_host env (unat (n_pages args)) (unat (mig_npages args)) st"
    using to_host_stage_inv [OF reg stage_inv_init _ mig_npages_le, where bd = bd and env = env]
    by auto
  have f: "dpages_fail st"
    using reg st _ fail by (rule to_host_stage_fails) simp
  from inv have "staged st = concat (map (stage_events To_host) (staged_pages args env))"
    by (simp add: stage_inv_def staged_pages_def)
  with assms(1-6) us f st undo_staged_inv [OF inv] To_host show ?thesis
    by (simp add: fpga_migrate_def fpga_migrate_to_host_def staged_pages_def)
qed

theorem migrate_alloc_failure_rolls_back_witness:
  "fpga_migrate To_card 128 bd_4k_2m args_three_pages env_third_fails
     = Inr (- ENOMEM,
         unmap_three_pages
         @ [Get_page 500, Lock_page 500, Get_page 501, Lock_page 501,
            Unlock_page 500, Put_page 500, Cpu_free_private_page 500,
            Unlock_page 501, Put_page 501, Cpu_free_private_page 501,
            Migrate_vma_pages [Dst_zero, Dst_zero, Dst_zero], Migrate_vma_finalize])"
proof -
  have n: "unat (mig_npages args_three_pages) = 3"
    by (simp add: mig_npages_def args_three_pages_def PAGE_SHIFT_def)
  have us: "tlb_unmap_hmm bd_4k_2m (drop_bit PAGE_SHIFT (vaddr args_three_pages))
      (ucast (mig_npages args_three_pages)) (hpid args_three_pages)
      (hugepages args_three_pages) = Inr unmap_three_pages"
    by (simp add: tlb_unmap_hmm_def mig_npages_def args_three_pages_def PAGE_SHIFT_def
        unmap_three_pages_def tlb_unmap_loop.simps tlb_invalidate_loop.simps)
  have pages: "staged_pages args_three_pages env_third_fails = [500, 501]"
    by (simp add: staged_pages_def n numeral_3_eq_3 src_at_def env_third_fails_def)
  have "fpga_migrate To_card 128 bd_4k_2m args_three_pages env_third_fails
     = Inr (- ENOMEM,
         unmap_three_pages
         @ concat (map (stage_events To_card) (staged_pages args_three_pages env_third_fails))
         @ concat (map undo_events (staged_pages args_three_pages env_third_fails))
         @ [Migrate_vma_pages (replicate (unat (n_pages args_three_pages)) Dst_zero),
            Migrate_vma_finalize])"
    by (rule migrate_alloc_failure_rolls_back [where k = 2, OF _ _ _ _ _ _ us])
       (simp_all add: n env_third_fails_def src_at_def)
  moreover have "unat (n_pages args_three_pages) = 3"
    by (simp add: args_three_pages_def)
  ultimately show ?thesis
    by (simp add: pages undo_events_def numeral_3_eq_3)
qed

text \<open>
  The claim says that the mapping state of the range is as it was before the call. The
  three-page migration to card whose third allocation fails: it returns \<open>-ENOMEM\<close>
  having removed the TLB entries of pages 16, 17 and 18 and installed none.
\<close>

theorem fpga_migrate_to_card_failure_leaves_range_unmapped:
  "map_sum id (\<lambda>(r, es). (r, unmapped_vaddrs es, mapped_entries es))
     (fpga_migrate_to_card 128 bd_4k_2m args_three_pages env_third_fails)
   = Inr (- ENOMEM, [16, 17, 18], [])"
  by (simp add: fpga_migrate_to_card_def tlb_unmap_hmm_def mig_npages_def init_stage_def
      undo_staged_def src_at_def PAGE_SHIFT_def Let_def args_three_pages_def
      env_third_fails_def tlb_unmap_loop.simps tlb_invalidate_loop.simps
      to_card_stage.simps undo_loop.simps)

subsection \<open>What does hold of the TLB loops, the page count and the allocator\<close>

text \<open>
  At regular granularity \<open>tlb_unmap_hmm\<close> walks the whole range, whatever its length:
  one unmapping and one invalidation for each of the \<open>n\<close> pages from \<open>v\<close>, the last
  invalidation flagged.
\<close>

lemma last_flag: "j < unat (n :: u32) \<Longrightarrow> ((of_nat j :: u32) = n - 1) = (Suc j = unat n)"
proof -
  assume j: "j < unat n"
  then have n0: "n \<noteq> 0" by (auto simp: unat_gt_0)
  have "((of_nat j :: u32) = n - 1) = (unat (of_nat j :: u32) = unat (n - 1))"
    by (simp add: word_unat_eq_iff)
  also have "unat (of_nat j :: u32) = j" using j by (simp add: le_unat_uoi [of j n])
  also have "unat (n - 1) = unat n - 1" using n0 by (simp add: unat_minus_one)
  finally show ?thesis using j by auto
qed

lemma tlb_unmap_loop_regular:
  "i \<le> unat n \<Longrightarrow> tlb_unmap_loop False 1 n h i v
     = Inr (map (\<lambda>k. Create_tlb_unmapping False (v + of_nat k) h) [0 ..< unat n - i])"
proof (induction "unat n - i" arbitrary: i v)
  case 0
  then show ?case by (subst tlb_unmap_loop.simps) simp
next
  case (Suc m)
  then have lt: "i < unat n" and m: "m = unat n - (i + 1)" and le: "i + 1 \<le> unat n"
    by simp_all
  have s: "unat n - i = Suc (unat n - (i + 1))" using lt by simp
  from Suc.hyps(1) [OF m le, of "v + 1"] lt show ?case
    by (subst tlb_unmap_loop.simps) (simp add: s map_upt_Suc add.assoc del: upt_Suc)
qed

lemma tlb_invalidate_loop_regular:
  "i \<le> unat n \<Longrightarrow> tlb_invalidate_loop 1 n h i v
     = Inr (map (\<lambda>k. Invalidate_tlb_entry (v + of_nat k) 1 h (Suc (i + k) = unat n))
              [0 ..< unat n - i])"
proof (induction "unat n - i" arbitrary: i v)
  case 0
  then show ?case by (subst tlb_invalidate_loop.simps) simp
next
  case (Suc m)
  then have lt: "i < unat n" and m: "m = unat n - (i + 1)" and le: "i + 1 \<le> unat n"
    by simp_all
  have s: "unat n - i = Suc (unat n - (i + 1))" using lt by simp
  from Suc.hyps(1) [OF m le, of "v + 1"] lt last_flag [OF lt] show ?case
    by (subst tlb_invalidate_loop.simps) (simp add: s map_upt_Suc add.assoc del: upt_Suc)
qed


theorem tlb_unmap_hmm_regular_walks_range:
  "tlb_unmap_hmm bd v n h False
     = Inr (map (\<lambda>k. Create_tlb_unmapping False (v + of_nat k) h) [0 ..< unat n]
            @ map (\<lambda>k. Invalidate_tlb_entry (v + of_nat k) 1 h (Suc k = unat n)) [0 ..< unat n])"
  using tlb_unmap_loop_regular [of 0 n h v] tlb_invalidate_loop_regular [of 0 n h v]
  by (simp add: tlb_unmap_hmm_def)

text \<open>
  \<open>tlb_map_hmm\<close> creates at most \<open>MAX_N_MAP_PAGES\<close> mappings, and every physical address
  it installs comes from a slot below that cap.
\<close>

lemma tlb_map_loop_cap:
  "tlb_map_loop maxn huge pg_inc n paddr host c h i v = Inr es \<Longrightarrow>
     length (mapped_entries es) \<le> maxn - i
     \<and> snd ` set (mapped_entries es) \<subseteq> set (take maxn paddr)"
proof (induction maxn huge pg_inc n paddr host c h i v arbitrary: es rule: tlb_map_loop.induct)
  case (1 maxn huge pg_inc n paddr host c h i v)
  show ?case
  proof (cases "i < unat n \<and> i < maxn")
    case True
    with "1.prems" have nz: "pg_inc \<noteq> 0" and len: "\<not> length paddr \<le> i"
      by (subst (asm) tlb_map_loop.simps, auto split: if_splits)+
    from nz have pos: "0 < unat pg_inc" by (simp add: unat_gt_0)
    show ?thesis
    proof (cases "paddr ! i = 0")
      case z: True
      with True nz len "1.prems" have
        "tlb_map_loop maxn huge pg_inc n paddr host c h (i + unat pg_inc) v = Inr es"
        by (subst (asm) tlb_map_loop.simps) auto
      from "1.IH"(1) [OF True nz len z this] show ?thesis by auto
    next
      case nzp: False
      with True nz len "1.prems" obtain es' where
        r: "tlb_map_loop maxn huge pg_inc n paddr host c h (i + unat pg_inc) (v + ucast pg_inc)
              = Inr es'"
        and es: "es = Create_tlb_mapping huge v (paddr ! i) host c h # es'"
        by (subst (asm) tlb_map_loop.simps) (auto dest: prepend_Inr)
      have "paddr ! i \<in> set (take maxn paddr)"
        using True len by (auto simp: in_set_conv_nth intro!: exI [of _ i])
      with "1.IH"(2) [OF True nz len nzp r] es True pos show ?thesis by auto
    qed
  next
    case False
    with "1.prems" show ?thesis
      by (subst (asm) tlb_map_loop.simps) auto
  qed
qed


theorem tlb_map_hmm_capped:
  "tlb_map_hmm maxn bd v paddr n host c h huge = Inr es \<Longrightarrow>
     length (mapped_entries es) \<le> maxn
     \<and> snd ` set (mapped_entries es) \<subseteq> set (take maxn paddr)"
  using tlb_map_loop_cap [of maxn huge _ _ paddr host c h 0 v es]
  by (simp add: tlb_map_hmm_def Let_def)

theorem tlb_map_hmm_capped_witness:
  "tlb_map_hmm 2 bd_4k_2m 100 [5, 6, 7] 3 CARD_ACCESS 3 7 False
     = Inr [Create_tlb_mapping False 100 5 CARD_ACCESS 3 7,
            Create_tlb_mapping False 101 6 CARD_ACCESS 3 7]
   \<and> length (mapped_entries [Create_tlb_mapping False 100 5 CARD_ACCESS 3 7,
            Create_tlb_mapping False 101 6 CARD_ACCESS 3 7]) \<le> 2"
proof -
  have run: "tlb_map_hmm 2 bd_4k_2m 100 [5, 6, 7] 3 CARD_ACCESS 3 7 False
     = Inr [Create_tlb_mapping False 100 5 CARD_ACCESS 3 7,
            Create_tlb_mapping False 101 6 CARD_ACCESS 3 7]"
    by (simp add: tlb_map_hmm_def tlb_map_loop.simps)
  from tlb_map_hmm_capped [OF run] run show ?thesis by simp
qed


text \<open>
  At regular granularity, for a request of at least one byte that does not wrap around
  the address space, the page count of \<open>mmu_handler_hmm\<close> is the number of regular
  pages the request spans.
\<close>

lemma drop_bit_and_not_mask: "drop_bit 12 ((w :: u64) AND NOT 0xFFF) = drop_bit 12 w"
proof -
  have m: "(0xFFF :: 64 word) = mask 12" by (simp add: mask_eq_exp_minus_1)
  show ?thesis
    unfolding m by (rule bit_word_eqI) (auto simp: bit_simps dest: bit_imp_le_length)
qed

lemma page_count_regular:
  fixes va len :: u64
  assumes "0 < unat len" "unat va + unat len \<le> 2 ^ 64"
  shows "unat (drop_bit 12 ((va + len - 1) AND NOT 0xFFF) - drop_bit 12 (va AND NOT 0xFFF) + 1)
     = (unat va + unat len - 1) div 4096 - unat va div 4096 + 1"
proof -
  have l0: "len \<noteq> 0" using assms(1) by (auto simp: unat_gt_0)
  have r: "va + len - 1 = va + (len - 1)" by simp
  have "unat (va + (len - 1)) = unat va + unat (len - 1)"
    using assms l0 by (intro unat_add_lem [THEN iffD1]) (simp add: unat_minus_one)
  also have "\<dots> = unat va + unat len - 1"
    using l0 assms(1) by (simp add: unat_minus_one)
  finally have e: "unat (va + len - 1) = unat va + unat len - 1"
    by (simp only: r)
  let ?L = "(unat va + unat len - 1) div 4096" and ?F = "unat va div 4096"
  have L: "unat (drop_bit 12 (va + len - 1)) = ?L"
    by (simp only: unat_drop_bit_eq e) (simp add: drop_bit_eq_div)
  have F: "unat (drop_bit 12 va) = ?F"
    by (simp only: unat_drop_bit_eq) (simp add: drop_bit_eq_div)
  have FL: "?F \<le> ?L" using assms(1) by (intro div_le_mono) simp
  have Lb: "?L < 2 ^ 52"
  proof -
    have "unat va + unat len - 1 < 2 ^ 64" using assms by simp
    then have "?L < 2 ^ 64 div 4096" by (simp add: less_mult_imp_div_less)
    then show ?thesis by simp
  qed
  have "unat (drop_bit 12 (va + len - 1) - drop_bit 12 va) = ?L - ?F"
    using FL L F by (simp add: unat_sub word_le_nat_alt)
  moreover have "unat (drop_bit 12 (va + len - 1) - drop_bit 12 va + 1)
      = (unat (drop_bit 12 (va + len - 1) - drop_bit 12 va) + 1) mod 2 ^ 64"
    by (simp add: unat_word_ariths)
  moreover have "(?L - ?F + 1) mod 2 ^ 64 = ?L - ?F + 1"
    using Lb by (intro mod_less) simp
  ultimately show ?thesis
    by (simp only: drop_bit_and_not_mask)
qed

theorem mmu_handler_n_pages_regular:
  assumes "stlb_meta bd = meta_4k" "0 < unat len" "unat va + unat len \<le> 2 ^ 64"
  shows "unat (mmu_handler_n_pages bd False va len) = claimed_page_count bd False va len"
  using page_count_regular [OF assms(2,3)] assms(1)
  by (simp add: mmu_handler_n_pages_def mmu_handler_first_def mmu_handler_last_def
      claimed_page_count_def granules_spanned_def tlb_meta_of_def meta_4k_def PAGE_SHIFT_def)

text \<open>
  The retry loop returns as soon as a pass finds the timeout exceeded: a list of
  observations that contains such a pass is enough for a result.
\<close>

theorem host_fault_loop_returns_on_timeout:
  "list_ex timed_out obs \<Longrightarrow> host_fault_loop obs \<noteq> None"
proof (induction obs)
  case Nil
  then show ?case by simp
next
  case (Cons ob obs)
  show ?case
  proof (cases "timed_out ob")
    case True
    then show ?thesis by simp
  next
    case False
    with Cons have "host_fault_loop obs \<noteq> None" by simp
    then obtain r es where "host_fault_loop obs = Some (r, es)" by auto
    then show ?thesis by simp
  qed
qed

theorem host_fault_loop_returns_on_timeout_witness:
  "list_ex timed_out [ob_stale, ob_stale\<lparr>timed_out := True\<rparr>]
   \<and> host_fault_loop [ob_stale, ob_stale\<lparr>timed_out := True\<rparr>] \<noteq> None"
  using host_fault_loop_returns_on_timeout [of "[ob_stale, ob_stale\<lparr>timed_out := True\<rparr>]"]
  by (simp add: ob_stale_def)


text \<open>
  The other paths of the allocator: \<open>cpu_free_private_page\<close> pushes the page with the
  lock taken and released once; whenever \<open>alloc_private_page\<close> hands out a page the lock
  is balanced; whenever \<open>alloc_new_prvt_pages\<close> reports an error, the error is \<open>-ENOMEM\<close>
  and the device is unchanged.
\<close>

theorem cpu_free_private_page_pushes_balanced:
  "cpu_free_private_page pg d = (d', es) \<Longrightarrow>
     free_pages d' = pg # free_pages d \<and> lock_depth Page_lock es 0 = Some 0"
  by (auto simp: cpu_free_private_page_def)

theorem alloc_private_page_handout_balanced:
  "alloc_private_page env d = Inr (Some pg, d', es) \<Longrightarrow> lock_depth Page_lock es 0 = Some 0"
  by (auto simp: alloc_private_page_def alloc_new_prvt_pages_def pop_free_page_def Let_def
      split: if_splits option.splits list.splits prod.splits)

theorem alloc_new_prvt_pages_error_is_enomem:
  "alloc_new_prvt_pages env d = (r, d', es) \<Longrightarrow> r \<noteq> 0 \<Longrightarrow> r = - ENOMEM \<and> d' = d"
  by (auto simp: alloc_new_prvt_pages_def Let_def split: if_splits option.splits prod.splits)

end
